theory Spec2Isabelle
  imports Main "HOL-Library.Product_Lexorder"
begin

section \<open>Instants and intervals\<close>

text \<open>
  The scheduler works on timezone-aware \<^verbatim>\<open>datetime\<close> values. Aware datetimes are
  compared, subtracted and maximised by their UTC instant, so the free/busy code is
  modelled on instants: an integer number of microseconds.

  \<^verbatim>\<open>timedelta.total_seconds()\<close> is the float nearest to the difference in seconds, and
  the code compares it with a whole number \<open>n\<close> of seconds (\<^verbatim>\<open>3600\<close>, or
  \<^verbatim>\<open>duration_minutes * 60\<close>). As long as \<open>\<bar>n\<bar> < 2^34\<close> the floats next to \<open>n\<close> are less
  than two microseconds apart, so a difference that is one microsecond short of \<open>n\<close>
  seconds is not rounded up to \<open>n\<close>, and the test is the comparison of the microsecond
  difference with \<open>n * 10^6\<close>: this is the comparison of the model, and
  \<open>\<bar>n\<bar> < 2^34\<close> is the range on which the model is the code. From \<open>2^34\<close> seconds
  (about 544 years) on, the float test of the code also accepts a difference that is one
  microsecond short; the free-slot tools use 3600 seconds.
\<close>

type_synonym instant = int
type_synonym interval = "instant \<times> instant"

definition us_per_second :: int where
  "us_per_second = 1000000"

definition seconds :: "int \<Rightarrow> int" where
  "seconds n = n * us_per_second"

definition minutes :: "int \<Rightarrow> int" where
  "minutes n = seconds (60 * n)"

definition hours :: "int \<Rightarrow> int" where
  "hours n = seconds (3600 * n)"

definition days :: "int \<Rightarrow> int" where
  "days n = seconds (86400 * n)"

section \<open>The free/busy sweep\<close>

text \<open>
  \<^verbatim>\<open>
    pointer = now
    free = []
    for s, e in busy:
        if (s - pointer).total_seconds() >= 3600:
            free.append((pointer, s))
        pointer = max(pointer, e)
    if (end - pointer).total_seconds() >= 3600:
        free.append((pointer, end))
  \<close>
  (\<^verbatim>\<open>find_conflict_free_slot\<close>; \<^verbatim>\<open>find_common_free_slot\<close> is the same loop with
  \<^verbatim>\<open>duration_minutes * 60\<close> for 3600.) The loop state is the pair of the pointer and the
  list of free slots; \<open>d\<close> is the minimum duration in microseconds, \<open>seconds n\<close> for
  the \<open>n\<close> of the code, with \<open>\<bar>n\<bar> < 2^34\<close> (see above).
\<close>

type_synonym sweep_state = "instant \<times> interval list"

fun sweep_step :: "int \<Rightarrow> sweep_state \<Rightarrow> interval \<Rightarrow> sweep_state" where
  "sweep_step d (pointer, free) (s, e) =
     (max pointer e, if s - pointer \<ge> d then free @ [(pointer, s)] else free)"

fun sweep :: "int \<Rightarrow> sweep_state \<Rightarrow> interval list \<Rightarrow> sweep_state" where
  "sweep d st [] = st"
| "sweep d st (b # busy) = sweep d (sweep_step d st b) busy"

text \<open>The states the loop passes through, the initial one first.\<close>

fun sweep_states :: "int \<Rightarrow> sweep_state \<Rightarrow> interval list \<Rightarrow> sweep_state list" where
  "sweep_states d st [] = [st]"
| "sweep_states d st (b # busy) = st # sweep_states d (sweep_step d st b) busy"

text \<open>The loop and the trailing test, on a list that is already in scan order.\<close>

definition sweep_free :: "int \<Rightarrow> instant \<Rightarrow> instant \<Rightarrow> interval list \<Rightarrow> interval list" where
  "sweep_free d window_start window_end busy =
     (case sweep d (window_start, []) busy of
        (pointer, free) \<Rightarrow>
          if window_end - pointer \<ge> d then free @ [(pointer, window_end)] else free)"

text \<open>
  \<^verbatim>\<open>busy.sort()\<close> orders the \<^verbatim>\<open>(start, end)\<close> tuples lexicographically, which is the
  order of pairs of \<^verbatim>\<open>HOL-Library.Product_Lexorder\<close>.
\<close>

definition free_slots :: "int \<Rightarrow> instant \<Rightarrow> instant \<Rightarrow> interval list \<Rightarrow> interval list" where
  "free_slots d window_start window_end busy =
     sweep_free d window_start window_end (sort busy)"

subsection \<open>Predicates on intervals\<close>

text \<open>Intervals are half-open: \<open>(a, b)\<close> holds the instants \<open>t\<close> with \<open>a \<le> t < b\<close>.\<close>

definition covered :: "interval list \<Rightarrow> instant \<Rightarrow> bool" where
  "covered ivs t = (\<exists>(a, b) \<in> set ivs. a \<le> t \<and> t < b)"

definition overlaps :: "interval \<Rightarrow> interval \<Rightarrow> bool" where
  "overlaps x y = (max (fst x) (fst y) < min (snd x) (snd y))"

fun pairwise_disjoint :: "interval list \<Rightarrow> bool" where
  "pairwise_disjoint [] = True"
| "pairwise_disjoint (x # xs) = ((\<forall>y \<in> set xs. \<not> overlaps x y) \<and> pairwise_disjoint xs)"

definition within_window :: "instant \<Rightarrow> instant \<Rightarrow> interval list \<Rightarrow> bool" where
  "within_window window_start window_end busy =
     (\<forall>(s, e) \<in> set busy. window_start \<le> s \<and> s < e \<and> e \<le> window_end)"

text \<open>
  An instant lies in a short gap when it sits between the window start or the end of a
  busy interval and the window end or the start of a busy interval that are less than
  \<open>d\<close> apart: the stretch of free time around it is shorter than the minimum duration.
\<close>

definition in_short_gap :: "int \<Rightarrow> instant \<Rightarrow> instant \<Rightarrow> interval list \<Rightarrow> instant \<Rightarrow> bool" where
  "in_short_gap d window_start window_end busy t =
     (\<exists>a \<in> set (window_start # map snd busy). \<exists>b \<in> set (window_end # map fst busy).
        a \<le> t \<and> t < b \<and> b - a < d)"

text \<open>
  The invariant of the loop: every instant between the window start and the pointer is
  in a busy interval already scanned, in a free slot already emitted, or in a gap that
  was skipped for being shorter than \<open>d\<close>. \<open>seen\<close> is the scanned prefix.
\<close>

definition accounted :: "int \<Rightarrow> instant \<Rightarrow> interval list \<Rightarrow> interval list \<Rightarrow> instant \<Rightarrow> bool" where
  "accounted d ws seen free t =
     (covered seen t \<or> covered free t \<or>
      (\<exists>a \<in> set (ws # map snd seen). \<exists>b \<in> set (map fst seen). a \<le> t \<and> t < b \<and> b - a < d))"

section \<open>Strings\<close>

text \<open>
  Python \<^verbatim>\<open>str\<close> values are modelled as \<^typ>\<open>string\<close>, one \<^typ>\<open>char\<close> per character;
  \<^verbatim>\<open>str.lower()\<close> is modelled on the ASCII letters, which is what it does on ASCII text.
\<close>

definition lower_char :: "char \<Rightarrow> char" where
  "lower_char c =
     (case map_of (zip ''ABCDEFGHIJKLMNOPQRSTUVWXYZ'' ''abcdefghijklmnopqrstuvwxyz'') c of
        Some l \<Rightarrow> l
      | None \<Rightarrow> c)"

definition lower :: "string \<Rightarrow> string" where
  "lower s = map lower_char s"

definition starts_with :: "string \<Rightarrow> string \<Rightarrow> bool" where
  "starts_with needle s = (take (length needle) s = needle)"

text \<open>\<^verbatim>\<open>needle in s\<close> on strings: \<open>needle\<close> occurs in \<open>s\<close> as a contiguous substring.\<close>

fun contains_str :: "string \<Rightarrow> string \<Rightarrow> bool" where
  "contains_str needle [] = (needle = [])"
| "contains_str needle (c # cs) = (starts_with needle (c # cs) \<or> contains_str needle cs)"

text \<open>\<^verbatim>\<open>sep.join(parts)\<close>.\<close>

fun join :: "string \<Rightarrow> string list \<Rightarrow> string" where
  "join sep [] = []"
| "join sep [x] = x"
| "join sep (x # y # ys) = x @ sep @ join sep (y # ys)"

text \<open>The character \<^verbatim>\<open>'\<close>, which a string literal of the theory cannot end with.\<close>

definition apostrophe :: string where
  "apostrophe = [CHR 0x27]"

section \<open>Exceptions, events and the environment\<close>

text \<open>
  A raised exception is a value: its class and its message (\<^verbatim>\<open>str(e)\<close>). Every function
  that can raise returns a sum, \<open>Inl\<close> carrying the exception. \<open>OtherError\<close> stands for
  any other subclass of \<^verbatim>\<open>Exception\<close> (the HTTP errors of the calendar client among them).
\<close>

datatype exn_kind =
  ValueError | TypeError | NameError | IndexError | KeyError | OverflowError | OtherError

type_synonym exn = "exn_kind \<times> string"

text \<open>
  A timestamp read from the calendar: the wall-clock reading in microseconds since
  0001-01-01T00:00 and the UTC offset of its zone. Its instant is what comparisons and
  subtraction of aware datetimes use. A datetime built by the tools themselves
  (\<^verbatim>\<open>replace(tzinfo=tz.UTC)\<close>) has offset 0.
\<close>

record tstamp =
  wall :: int
  utcoff :: int


definition utc :: "int \<Rightarrow> tstamp" where
  "utc w = \<lparr>wall = w, utcoff = 0\<rparr>"

text \<open>
  An event resource as the calendar service returns it. A field the code reads with
  \<^verbatim>\<open>.get\<close> is optional: \<open>ev_start\<close> is \<^verbatim>\<open>e['start'].get('dateTime')\<close> (absent on all-day
  events), an attendee is its \<^verbatim>\<open>email\<close> if it has one, \<open>ev_entry_points\<close> is
  \<^verbatim>\<open>conferenceData.entryPoints\<close> with the \<^verbatim>\<open>uri\<close> of each entry, and \<open>ev_user_id\<close> is the
  \<^verbatim>\<open>user_id\<close> key the tools add to a listed event.
\<close>

record event =
  ev_id :: string
  ev_summary :: "string option"
  ev_start :: "tstamp option"
  ev_end :: "tstamp option"
  ev_attendees :: "string option list"
  ev_html_link :: "string option"
  ev_entry_points :: "string option list option"
  ev_user_id :: "string option"

text \<open>The body \<^verbatim>\<open>create_meeting\<close> sends to \<^verbatim>\<open>events().insert\<close>.\<close>

record new_event =
  ne_summary :: string
  ne_start :: tstamp
  ne_end :: tstamp
  ne_attendees :: "string list"

text \<open>A write the calendar service has applied: the call returned without raising.\<close>

datatype gw_write =
  Insert string new_event
| Update string string event
| Delete string string

text \<open>The \<^verbatim>\<open>re.search\<close> patterns of the module, each with one capture group.\<close>

datatype search_pattern =
  Cancel_event_id \<comment> \<open>\<^verbatim>\<open>cancel\s+event\s+([A-Za-z0-9_-]+)\<close>\<close>
| Reschedule_id \<comment> \<open>\<^verbatim>\<open>ID\s*:\s*(\w+)\<close>\<close>
| On_day \<comment> \<open>\<^verbatim>\<open>on\s+(\w+)\<close>\<close>
| At_time \<comment> \<open>\<^verbatim>\<open>at\s+(\d{1,2}(?::\d{2})?\s*(?:am|pm))\<close>\<close>

text \<open>
  Everything outside the module that a tool consults, as one record of answers:
  \<^item> \<open>now\<close>: \<^verbatim>\<open>datetime.now(tz.UTC)\<close>, as an instant and as a UTC wall-clock reading;
  \<^item> \<open>today\<close>: the default \<^verbatim>\<open>dateutil\<close> fills missing fields from when none is given
    (the local date at midnight);
  \<^item> \<open>re_match i q\<close>: \<^verbatim>\<open>re.match(patterns[i], q, re.IGNORECASE)\<close>, the \<^verbatim>\<open>groupdict()\<close> of
    the match (a group that did not take part maps to \<open>None\<close>);
  \<^item> \<open>re_search p q\<close>: group 1 of \<^verbatim>\<open>re.search\<close> with pattern \<open>p\<close>;
  \<^item> \<open>dateparse s default\<close>: \<^verbatim>\<open>parser.parse(s, default=default, fuzzy=True)\<close>, the
    wall-clock reading of the result;
  \<^item> \<open>get_service uid\<close>: \<^verbatim>\<open>get_user_service(uid)\<close>, \<open>Some\<close> exception when it raises;
  \<^item> \<open>gw_list\<close>, \<open>gw_get\<close>, \<open>gw_insert\<close>, \<open>gw_update\<close>, \<open>gw_delete\<close>: the calls
    \<^verbatim>\<open>events().list/get/insert/update/delete(...).execute()\<close> on the primary calendar of
    a user; a call that raises has applied nothing;
  \<^item> \<open>free_slot_tool\<close>: what calling the decorated tool object
    \<^verbatim>\<open>find_conflict_free_slot()\<close> from inside another tool gives.
\<close>

record env =
  now :: int
  today :: int
  re_match :: "nat \<Rightarrow> string \<Rightarrow> (string \<rightharpoonup> string option) option"
  re_search :: "search_pattern \<Rightarrow> string \<Rightarrow> string option"
  dateparse :: "string \<Rightarrow> int \<Rightarrow> exn + int"
  get_service :: "string \<Rightarrow> exn option"
  gw_list :: "string \<Rightarrow> int \<Rightarrow> int \<Rightarrow> exn + event list"
  gw_get :: "string \<Rightarrow> string \<Rightarrow> exn + event"
  gw_insert :: "string \<Rightarrow> new_event \<Rightarrow> exn + event"
  gw_update :: "string \<Rightarrow> string \<Rightarrow> event \<Rightarrow> exn + event"
  gw_delete :: "string \<Rightarrow> string \<Rightarrow> exn option"
  free_slot_tool :: "exn + string"

section \<open>Datetime arithmetic\<close>

text \<open>
  A wall-clock reading is a number of microseconds since 0001-01-01T00:00, the first
  day of the proleptic Gregorian calendar and a Monday. \<^verbatim>\<open>datetime\<close> holds the readings
  from year 1 to year 9999; adding a \<^verbatim>\<open>timedelta\<close> that leaves the range raises
  \<^verbatim>\<open>OverflowError\<close>.
\<close>

definition max_wall :: int where
  "max_wall = days 3652059"

definition dt_add :: "int \<Rightarrow> int \<Rightarrow> exn + int" where
  "dt_add w delta =
     (if 0 \<le> w + delta \<and> w + delta < max_wall then Inr (w + delta)
      else Inl (OverflowError, ''date value out of range''))"

definition date_of :: "int \<Rightarrow> int" where
  "date_of w = w div days 1"

text \<open>\<^verbatim>\<open>datetime.weekday()\<close>: Monday is 0.\<close>

definition weekday :: "int \<Rightarrow> nat" where
  "weekday w = nat (date_of w mod 7)"

definition hour_of :: "int \<Rightarrow> int" where
  "hour_of w = (w div hours 1) mod 24"

definition minute_of :: "int \<Rightarrow> int" where
  "minute_of w = (w div minutes 1) mod 60"

definition second_of :: "int \<Rightarrow> int" where
  "second_of w = (w div seconds 1) mod 60"

definition microsecond_of :: "int \<Rightarrow> int" where
  "microsecond_of w = w mod seconds 1"

text \<open>\<^verbatim>\<open>dt.replace(second=0, microsecond=0)\<close> and \<^verbatim>\<open>dt.replace(hour=0, minute=0, second=0, microsecond=0)\<close>.\<close>

definition floor_minute :: "int \<Rightarrow> int" where
  "floor_minute w = w - w mod minutes 1"

definition floor_day :: "int \<Rightarrow> int" where
  "floor_day w = w - w mod days 1"

definition day_names :: "string list" where
  "day_names =
     [''monday'', ''tuesday'', ''wednesday'', ''thursday'', ''friday'', ''saturday'', ''sunday'']"

definition weekday_names :: "string list" where
  "weekday_names =
     [''Monday'', ''Tuesday'', ''Wednesday'', ''Thursday'', ''Friday'', ''Saturday'', ''Sunday'']"

text \<open>\<^verbatim>\<open>strftime('%A')\<close> and \<^verbatim>\<open>strftime('%I:%M %p')\<close>.\<close>

definition pad2 :: "nat \<Rightarrow> string" where
  "pad2 n = [''0123456789'' ! (n div 10 mod 10), ''0123456789'' ! (n mod 10)]"

definition strftime_A :: "int \<Rightarrow> string" where
  "strftime_A w = weekday_names ! weekday w"

definition strftime_IMp :: "int \<Rightarrow> string" where
  "strftime_IMp w =
     pad2 (nat (if hour_of w mod 12 = 0 then 12 else hour_of w mod 12)) @ '':''
       @ pad2 (nat (minute_of w)) @ '' '' @ (if hour_of w < 12 then ''AM'' else ''PM'')"

text \<open>
  The day-of-week loop of \<^verbatim>\<open>create_meeting\<close>:
  \<^verbatim>\<open>
    for i, day in enumerate(day_names):
        if day in query_lower and start.weekday() != i:
            current_weekday = start.weekday()
            days_ahead = (i - current_weekday + 7) % 7
            if days_ahead == 0:
                days_ahead = 7
            start = start + timedelta(days=days_ahead)
            start = start.replace(hour=start.hour, minute=start.minute, second=0, microsecond=0)
  \<close>
\<close>

fun adjust_weekday :: "string \<Rightarrow> (nat \<times> string) list \<Rightarrow> int \<Rightarrow> exn + int" where
  "adjust_weekday query_lower [] start = Inr start"
| "adjust_weekday query_lower ((i, day) # rest) start =
     (if contains_str day query_lower \<and> weekday start \<noteq> i then
        (let current_weekday = weekday start;
             days_ahead = (int i - int current_weekday + 7) mod 7;
             days_ahead = (if days_ahead = 0 then 7 else days_ahead)
         in case dt_add start (days days_ahead) of
              Inl x \<Rightarrow> Inl x
            | Inr moved \<Rightarrow> adjust_weekday query_lower rest (floor_minute moved))
      else adjust_weekday query_lower rest start)"

section \<open>The free-slot tools\<close>

text \<open>
  What the tools report. \<^verbatim>\<open>find_conflict_free_slot\<close> returns
  \<^verbatim>\<open>f"Suggested: {free[0][0]} to {free[0][1]}"\<close> or \<^verbatim>\<open>"No free slot."\<close>,
  \<^verbatim>\<open>find_common_free_slot\<close> returns \<^verbatim>\<open>"Suggested free slot: ... to ..."\<close> or
  \<^verbatim>\<open>"No common slot found."\<close>; the model keeps the two instants of the text.
\<close>

datatype slot_report = Suggested instant instant | No_free_slot

definition report_first :: "interval list \<Rightarrow> slot_report" where
  "report_first free = (case free of [] \<Rightarrow> No_free_slot | (a, b) # _ \<Rightarrow> Suggested a b)"

text \<open>
  The loop over the events of one user: \<^verbatim>\<open>parser.parse\<close> of a missing \<^verbatim>\<open>dateTime\<close>
  raises \<^verbatim>\<open>TypeError\<close>. The intervals appended before the exception stay in \<^verbatim>\<open>busy\<close>.
\<close>

definition parse_none :: exn where
  "parse_none = (TypeError, ''Parser must be a string or character stream, not NoneType'')"








subsection \<open>The earliest qualifying gap\<close>



text \<open>
  A stretch \<open>(x, y)\<close> qualifies when it lies in the window, lasts at least \<open>d\<close> and
  overlaps no busy interval. This is said of the busy intervals alone, not of what the
  sweep computes.
\<close>

definition qualifying :: "int \<Rightarrow> instant \<Rightarrow> instant \<Rightarrow> interval list \<Rightarrow> interval \<Rightarrow> bool" where
  "qualifying d window_start window_end busy slot =
     (window_start \<le> fst slot \<and> snd slot \<le> window_end \<and> d \<le> snd slot - fst slot
      \<and> (\<forall>b \<in> set busy. \<not> overlaps slot b))"


section \<open>The contact resolver\<close>

text \<open>
  The second half of \<^verbatim>\<open>parse_user_query\<close> turns the raw attendee text into addresses.
  Its two regular expressions are written out as functions.
\<close>

definition is_alpha :: "char \<Rightarrow> bool" where
  "is_alpha c =
     (c \<in> set ''abcdefghijklmnopqrstuvwxyz'' \<or> c \<in> set ''ABCDEFGHIJKLMNOPQRSTUVWXYZ'')"

definition is_digit :: "char \<Rightarrow> bool" where
  "is_digit c = (c \<in> set ''0123456789'')"

text \<open>The classes \<^verbatim>\<open>[a-zA-Z0-9._%+-]\<close>, \<^verbatim>\<open>[a-zA-Z0-9.-]\<close> and \<^verbatim>\<open>\w\<close> (on ASCII).\<close>

definition local_char :: "char \<Rightarrow> bool" where
  "local_char c = (is_alpha c \<or> is_digit c \<or> c \<in> set ''._%+-'')"

definition domain_char :: "char \<Rightarrow> bool" where
  "domain_char c = (is_alpha c \<or> is_digit c \<or> c \<in> set ''.-'')"

definition word_char :: "char \<Rightarrow> bool" where
  "word_char c = (is_alpha c \<or> is_digit c \<or> c = CHR ''_'')"

text \<open>
  \<^verbatim>\<open>[a-zA-Z0-9.-]+\.[a-zA-Z]{2,}\<close> on the run of domain characters after the \<^verbatim>\<open>@\<close>: the
  greedy \<^verbatim>\<open>+\<close> gives characters back until what follows is a dot and at least two
  letters, so the dot chosen is the last one of the run that has a character before it
  and two letters after it. \<open>scan_domain i run best\<close> walks the run from offset \<open>i\<close> and
  returns the offset at which the match ends for the last such dot.
\<close>

fun scan_domain :: "nat \<Rightarrow> string \<Rightarrow> nat option \<Rightarrow> nat option" where
  "scan_domain i [] best = best"
| "scan_domain i (c # cs) best =
     scan_domain (Suc i) cs
       (if c = CHR ''.'' \<and> 1 \<le> i \<and> 2 \<le> length (takeWhile is_alpha cs)
        then Some (Suc i + length (takeWhile is_alpha cs)) else best)"

text \<open>
  A match of \<^verbatim>\<open>[a-zA-Z0-9._%+-]+@[a-zA-Z0-9.-]+\.[a-zA-Z]{2,}\<close> that starts at the head of
  the text: the local part is the whole run of local characters (a shorter one is not
  followed by \<^verbatim>\<open>@\<close>).
\<close>

definition match_email :: "string \<Rightarrow> string option" where
  "match_email s =
     (let local = takeWhile local_char s in
      if local = [] then None
      else
        (case dropWhile local_char s of
           [] \<Rightarrow> None
         | c # r \<Rightarrow>
             if c \<noteq> CHR ''@'' then None
             else
               (case scan_domain 0 (takeWhile domain_char r) None of
                  None \<Rightarrow> None
                | Some n \<Rightarrow> Some (local @ [CHR ''@''] @ take n r))))"

text \<open>
  \<^verbatim>\<open>re.findall(email_pattern, raw)\<close>: the leftmost match, then the search goes on after
  it. \<open>skip\<close> counts the characters of the last match that are still to be passed over.
\<close>

fun findall_email :: "nat \<Rightarrow> string \<Rightarrow> string list" where
  "findall_email skip [] = []"
| "findall_email skip (c # cs) =
     (if 0 < skip then findall_email (skip - 1) cs
      else
        (case match_email (c # cs) of
           Some m \<Rightarrow> m # findall_email (length m - 1) cs
         | None \<Rightarrow> findall_email 0 cs))"

text \<open>
  \<^verbatim>\<open>re.split(r",|\band\b", raw, flags=re.IGNORECASE)\<close>. \<open>prev\<close> is the character before
  the current one (for the first \<^verbatim>\<open>\b\<close>), \<open>part\<close> the fragment collected so far and
  \<open>skip\<close> the characters of a matched \<^verbatim>\<open>and\<close> still to be passed over.
\<close>

definition and_here :: "char option \<Rightarrow> string \<Rightarrow> bool" where
  "and_here prev s =
     (lower (take 3 s) = ''and''
      \<and> (case prev of None \<Rightarrow> True | Some p \<Rightarrow> \<not> word_char p)
      \<and> (case drop 3 s of [] \<Rightarrow> True | n # _ \<Rightarrow> \<not> word_char n))"

fun split_names :: "nat \<Rightarrow> char option \<Rightarrow> string \<Rightarrow> string \<Rightarrow> string list" where
  "split_names skip prev part [] = [part]"
| "split_names skip prev part (c # cs) =
     (if 0 < skip then split_names (skip - 1) (Some c) part cs
      else if c = CHR '','' then part # split_names 0 (Some c) [] cs
      else if and_here prev (c # cs) then part # split_names 2 (Some c) [] cs
      else split_names 0 (Some c) (part @ [c]) cs)"

text \<open>\<^verbatim>\<open>str.strip()\<close>, on the ASCII whitespace characters.\<close>

definition is_space :: "char \<Rightarrow> bool" where
  "is_space c =
     (c \<in> set [CHR 0x20, CHR 0x09, CHR 0x0A, CHR 0x0B, CHR 0x0C, CHR 0x0D,
                CHR 0x1C, CHR 0x1D, CHR 0x1E, CHR 0x1F])"

definition strip :: "string \<Rightarrow> string" where
  "strip s = rev (dropWhile is_space (rev (dropWhile is_space s)))"

definition email_mapping :: "(string \<times> string) list" where
  "email_mapping =
     [(''akash'', ''akashmehta556@gmail.com''),
      (''eliana'', ''eliana@gocadre.ai''),
      (''srilak'', ''srilakp@pdx.edu''),
      (''faraz'', ''gurramkondafaraz@gmail.com''),
      (''vlds'', ''vlds@umich.edu''),
      (''odell'', ''odelllaxx@gmail.com'')]"

text \<open>The loop over the fragments: empty ones and unknown names are dropped.\<close>

fun map_names :: "string list \<Rightarrow> string list" where
  "map_names [] = []"
| "map_names (name # parts) =
     (let name = strip name in
      if name = [] then map_names parts
      else
        (case map_of email_mapping (lower name) of
           Some mapped \<Rightarrow> mapped # map_names parts
         | None \<Rightarrow> map_names parts))"

text \<open>
  Lines 93 to 124 of \<^verbatim>\<open>parse_user_query\<close>: if the text holds any address, the addresses
  are the attendees; only otherwise are names looked up.
\<close>

definition resolve :: "string \<Rightarrow> string list" where
  "resolve raw =
     (let found_emails = findall_email 0 raw in
      if found_emails \<noteq> [] then found_emails
      else map_names (split_names 0 None [] raw))"

section \<open>The intent parser\<close>

text \<open>
  The dictionary \<^verbatim>\<open>result\<close> while the patterns are tried. Its \<^verbatim>\<open>attendees\<close> entry starts
  as the empty list and becomes a capture group once a pattern with that group matched.
\<close>

datatype raw_attendees = Empty_list | Group "string option"

record parse_state =
  ps_summary :: "string option"
  ps_time :: "string option"
  ps_old_time :: "string option"
  ps_attendees :: raw_attendees
  ps_is_first :: bool

record intent =
  in_summary :: string
  in_time :: "string option"
  in_old_time :: "string option"
  in_attendees :: "string list"
  in_is_first :: bool

definition initial_state :: parse_state where
  "initial_state =
     \<lparr>ps_summary = Some ''Meeting'', ps_time = None, ps_old_time = None,
      ps_attendees = Empty_list, ps_is_first = False\<rparr>"

text \<open>\<^verbatim>\<open>result.update(match.groupdict())\<close>.\<close>

definition update_state :: "parse_state \<Rightarrow> (string \<rightharpoonup> string option) \<Rightarrow> parse_state" where
  "update_state st gd =
     st\<lparr>ps_summary := (case gd ''summary'' of None \<Rightarrow> ps_summary st | Some v \<Rightarrow> v),
        ps_time := (case gd ''time'' of None \<Rightarrow> ps_time st | Some v \<Rightarrow> v),
        ps_old_time := (case gd ''old_time'' of None \<Rightarrow> ps_old_time st | Some v \<Rightarrow> v),
        ps_attendees := (case gd ''attendees'' of None \<Rightarrow> ps_attendees st | Some v \<Rightarrow> Group v)\<rparr>"

text \<open>
  The loop over the five patterns, by index: the first that matches updates the state,
  sets \<^verbatim>\<open>is_first\<close> if the lowered query contains \<^verbatim>\<open>first\<close>, and ends the loop.
\<close>

fun try_patterns :: "env \<Rightarrow> string \<Rightarrow> nat list \<Rightarrow> parse_state \<Rightarrow> parse_state" where
  "try_patterns env query [] st = st"
| "try_patterns env query (i # is) st =
     (case re_match env i query of
        Some gd \<Rightarrow>
          (let st' = update_state st gd in
           if contains_str ''first'' (lower query) then st'\<lparr>ps_is_first := True\<rparr> else st')
      | None \<Rightarrow> try_patterns env query is st)"

text \<open>
  The \<^verbatim>\<open>groupdict()\<close> of the first pattern that matches: the \<^verbatim>\<open>match\<close> the loop ends
  on, if it ends on one.
\<close>

fun first_match :: "env \<Rightarrow> string \<Rightarrow> nat list \<Rightarrow> (string \<rightharpoonup> string option) option" where
  "first_match env query [] = None"
| "first_match env query (i # is) =
     (case re_match env i query of
        Some gd \<Rightarrow> Some gd
      | None \<Rightarrow> first_match env query is)"

text \<open>
  \<^verbatim>\<open>re.findall\<close> raises \<^verbatim>\<open>TypeError\<close> on anything but a string: on the initial \<^verbatim>\<open>[]\<close>
  (no pattern matched, or the matching pattern has no \<^verbatim>\<open>attendees\<close> group, as the
  fifth, \<^verbatim>\<open>reschedule the first meeting ...\<close>) and on \<^verbatim>\<open>None\<close>. The message is the one
  of Python 3.11 and later, which names the type of the argument; earlier versions end
  it after \<^verbatim>\<open>object\<close>.
\<close>

definition findall_type_error :: "string \<Rightarrow> exn" where
  "findall_type_error type_name =
     (TypeError,
      ''expected string or bytes-like object, got '' @ apostrophe @ type_name @ apostrophe)"

definition parse_user_query :: "env \<Rightarrow> string \<Rightarrow> exn + intent" where
  "parse_user_query env query =
     (let st = try_patterns env query [0, 1, 2, 3, 4] initial_state in
      case ps_attendees st of
        Empty_list \<Rightarrow> Inl (findall_type_error ''list'')
      | Group None \<Rightarrow> Inl (findall_type_error ''NoneType'')
      | Group (Some raw) \<Rightarrow>
          Inr \<lparr>in_summary =
                 (case ps_summary st of
                    None \<Rightarrow> ''Meeting''
                  | Some s \<Rightarrow> if s = [] then ''Meeting'' else s),
               in_time = ps_time st,
               in_old_time = ps_old_time st,
               in_attendees = resolve raw,
               in_is_first = ps_is_first st\<rparr>)"

section \<open>The event matchers\<close>

definition email_or_empty :: "string option \<Rightarrow> string" where
  "email_or_empty a = (case a of None \<Rightarrow> [] | Some e \<Rightarrow> e)"

definition summary_or :: "event \<Rightarrow> string \<Rightarrow> string" where
  "summary_or ev dflt = (case ev_summary ev of None \<Rightarrow> dflt | Some s \<Rightarrow> s)"

text \<open>
  The loop of \<^verbatim>\<open>reschedule_meeting\<close> for a query that is not about a first meeting:
  \<^verbatim>\<open>
    for event in events:
        event_attendees = [attendee.get('email', '').lower() for attendee in event.get('attendees', [])]
        if all(a['email'].lower() in event_attendees for a in attendees):
            if summary is None or event.get('summary', '').lower() == summary.lower():
                target_event = event
                break
        if not target_event:
            summary_lower = event.get('summary', '').lower()
            for a in attendees:
                if a['email'].lower() in summary_lower:
                    target_event = event
                    break
            if target_event:
                break
  \<close>
  Both tests are made on each event in turn; \<^verbatim>\<open>target_event\<close> is still \<^verbatim>\<open>None\<close> when the
  second test is reached.
\<close>

fun match_events :: "string list \<Rightarrow> string option \<Rightarrow> event list \<Rightarrow> event option" where
  "match_events attendees summary [] = None"
| "match_events attendees summary (event # events) =
     (let event_attendees = map (\<lambda>a. lower (email_or_empty a)) (ev_attendees event);
          summary_lower = lower (summary_or event [])
      in if list_all (\<lambda>a. lower a \<in> set event_attendees) attendees
            \<and> (case summary of None \<Rightarrow> True | Some s \<Rightarrow> summary_lower = lower s)
         then Some event
         else if list_ex (\<lambda>a. contains_str (lower a) summary_lower) attendees
         then Some event
         else match_events attendees summary events)"

text \<open>The two criteria of the matcher, on sets.\<close>

definition attendees_and_summary_match :: "string list \<Rightarrow> string option \<Rightarrow> event \<Rightarrow> bool" where
  "attendees_and_summary_match attendees summary event =
     (lower ` set attendees \<subseteq> (\<lambda>a. lower (email_or_empty a)) ` set (ev_attendees event)
      \<and> (case summary of
            None \<Rightarrow> True
          | Some s \<Rightarrow> lower (summary_or event []) = lower s))"

definition summary_names_attendee :: "string list \<Rightarrow> event \<Rightarrow> bool" where
  "summary_names_attendee attendees event =
     (\<exists>a \<in> set attendees. contains_str (lower a) (lower (summary_or event [])))"

text \<open>
  The loop of \<^verbatim>\<open>reschedule_meeting\<close> for a first meeting: the first event that starts
  on the date of \<^verbatim>\<open>old_start\<close>. \<^verbatim>\<open>parser.parse\<close> of a missing \<^verbatim>\<open>dateTime\<close> raises.
\<close>

fun first_on_date :: "int \<Rightarrow> event list \<Rightarrow> exn + event option" where
  "first_on_date old_start [] = Inr None"
| "first_on_date old_start (event # events) =
     (case ev_start event of
        None \<Rightarrow> Inl parse_none
      | Some event_start \<Rightarrow>
          if date_of (wall event_start) = date_of old_start then Inr (Some event)
          else first_on_date old_start events)"

text \<open>
  The loop of \<^verbatim>\<open>cancel_meeting\<close>: the first event that includes every requested
  attendee and passes the day and time filters. \<^verbatim>\<open>ev['start']['dateTime']\<close> raises
  \<^verbatim>\<open>KeyError\<close> on an event without it.
\<close>

fun find_cancel_target ::
  "string list \<Rightarrow> string option \<Rightarrow> (int \<times> int) option \<Rightarrow> event list \<Rightarrow> exn + event option" where
  "find_cancel_target attendees day_filter time_filter [] = Inr None"
| "find_cancel_target attendees day_filter time_filter (ev # events) =
     (let ev_emails = map (\<lambda>a. lower (email_or_empty a)) (ev_attendees ev)
      in if \<not> list_all (\<lambda>a. lower a \<in> set ev_emails) attendees
         then find_cancel_target attendees day_filter time_filter events
         else
           (case ev_start ev of
              None \<Rightarrow> Inl (KeyError, apostrophe @ ''dateTime'' @ apostrophe)
            | Some ev_dt \<Rightarrow>
                if (case day_filter of
                      None \<Rightarrow> False
                    | Some d \<Rightarrow> lower (strftime_A (wall ev_dt)) \<noteq> d)
                then find_cancel_target attendees day_filter time_filter events
                else if (case time_filter of
                           None \<Rightarrow> False
                         | Some t \<Rightarrow> (hour_of (wall ev_dt), minute_of (wall ev_dt)) \<noteq> t)
                then find_cancel_target attendees day_filter time_filter events
                else Inr (Some ev)))"

section \<open>The scheduling actions\<close>

text \<open>
  What a \<^verbatim>\<open>try\<close> block of an action comes to: an exception on its way to the handler
  around it (\<open>Inl\<close>) or the returned text (\<open>Inr\<close>), with the writes applied so far.
\<close>

type_synonym outcome = "(exn + string) \<times> gw_write list"

definition raises :: "exn \<Rightarrow> outcome" where
  "raises x = (Inl x, [])"

definition returns :: "string \<Rightarrow> outcome" where
  "returns s = (Inr s, [])"

text \<open>A step inside a block: raise, return from the function, or go on with a value.\<close>

datatype 'a step = Raise exn | Return string | Go 'a

text \<open>
  \<^verbatim>\<open>ev.get('conferenceData', {}).get('entryPoints', [{}])[0].get('uri', default)\<close>: the
  index raises \<^verbatim>\<open>IndexError\<close> on an empty list of entry points.
\<close>

definition meet_link_of :: "event \<Rightarrow> string \<Rightarrow> exn + string" where
  "meet_link_of ev dflt =
     (case ev_entry_points ev of
        None \<Rightarrow> Inr dflt
      | Some [] \<Rightarrow> Inl (IndexError, ''list index out of range'')
      | Some (entry # _) \<Rightarrow> Inr (case entry of None \<Rightarrow> dflt | Some uri \<Rightarrow> uri))"

text \<open>\<^verbatim>\<open>[a['email'] for a in attendees]\<close> on the attendees of an event resource.\<close>

fun attendee_emails :: "string option list \<Rightarrow> exn + string list" where
  "attendee_emails [] = Inr []"
| "attendee_emails (a # as) =
     (case a of
        None \<Rightarrow> Inl (KeyError, apostrophe @ ''email'' @ apostrophe)
      | Some e \<Rightarrow>
          (case attendee_emails as of Inl x \<Rightarrow> Inl x | Inr es \<Rightarrow> Inr (e # es)))"

definition html_link_text :: "event \<Rightarrow> string" where
  "html_link_text ev = (case ev_html_link ev of None \<Rightarrow> ''None'' | Some l \<Rightarrow> l)"

text \<open>
  The listing loop of \<^verbatim>\<open>cancel_meeting\<close> and \<^verbatim>\<open>reschedule_meeting\<close>: each listed event
  gets its owner under \<^verbatim>\<open>user_id\<close>; a listing that raises is logged and left out.
\<close>

fun collect_events :: "env \<Rightarrow> int \<Rightarrow> int \<Rightarrow> string list \<Rightarrow> exn + event list" where
  "collect_events env time_min time_max [] = Inr []"
| "collect_events env time_min time_max (uid # uids) =
     (case get_service env uid of
        Some x \<Rightarrow> Inl x
      | None \<Rightarrow>
          (case collect_events env time_min time_max uids of
             Inl x \<Rightarrow> Inl x
           | Inr rest \<Rightarrow>
               Inr ((case gw_list env uid time_min time_max of
                       Inl _ \<Rightarrow> []
                     | Inr items \<Rightarrow> map (\<lambda>ev. ev\<lparr>ev_user_id := Some uid\<rparr>) items) @ rest)))"

subsection \<open>create\_meeting\<close>

definition created_text :: "int \<Rightarrow> string list \<Rightarrow> string \<Rightarrow> string" where
  "created_text start attendees meet_link =
     ''The meeting on '' @ strftime_A start @ '' at '' @ strftime_IMp start @ '' with ''
       @ join '', '' attendees
       @ '' has been created. You can join the meeting using this [Google Meet link](''
       @ meet_link @ '').''"

definition unparsed_time_text :: "string \<Rightarrow> string" where
  "unparsed_time_text time_str =
     ''Failed to create event: Could not parse time '' @ apostrophe @ time_str @ apostrophe
       @ ''. Please use a format like '' @ apostrophe @ ''Saturday at 3pm'' @ apostrophe
       @ '' or '' @ apostrophe @ ''July 16th at 6pm'' @ apostrophe @ ''.''"

text \<open>The body of the outer \<^verbatim>\<open>try\<close> of \<^verbatim>\<open>create_meeting\<close>.\<close>

definition create_meeting_try :: "env \<Rightarrow> string \<Rightarrow> outcome" where
  "create_meeting_try env query =
     (case parse_user_query env query of
        Inl x \<Rightarrow> raises x
      | Inr parsed \<Rightarrow>
          (case in_time parsed of
             None \<Rightarrow> returns ''Failed to create event: No valid time specified.''
           | Some time_str \<Rightarrow>
               if time_str = [] then returns ''Failed to create event: No valid time specified.''
               else if in_attendees parsed = []
               then returns ''Failed to create event: No valid attendees specified.''
               else
                 (case dateparse env time_str (today env) of
                    Inl x \<Rightarrow>
                      if fst x = ValueError then returns (unparsed_time_text time_str)
                      else raises x
                  | Inr parsed_start \<Rightarrow>
                      (case adjust_weekday (lower query) (enumerate 0 day_names) parsed_start of
                         Inl x \<Rightarrow> raises x
                       | Inr start \<Rightarrow>
                           (case dt_add start (hours 1) of
                              Inl x \<Rightarrow> raises x
                            | Inr end_time \<Rightarrow>
                                (let event = \<lparr>ne_summary = in_summary parsed,
                                               ne_start = utc start,
                                               ne_end = utc end_time,
                                               ne_attendees = in_attendees parsed\<rparr>
                                 in case get_service env ''user1'' of
                                      Some x \<Rightarrow> raises x
                                    | None \<Rightarrow>
                                        (case gw_insert env ''user1'' event of
                                           Inl x \<Rightarrow>
                                             returns (''Failed to create event: '' @ snd x)
                                         | Inr created \<Rightarrow>
                                             (case meet_link_of created
                                                     ''No Google Meet link generated'' of
                                                Inl x \<Rightarrow> (Inl x, [Insert ''user1'' event])
                                              | Inr meet_link \<Rightarrow>
                                                  (Inr (created_text start
                                                          (in_attendees parsed) meet_link),
                                                   [Insert ''user1'' event])))))))))"

text \<open>The outer handler: \<^verbatim>\<open>except Exception as e: return f"Failed to create event: {str(e)}"\<close>.\<close>

definition create_meeting :: "env \<Rightarrow> string \<Rightarrow> string \<times> gw_write list" where
  "create_meeting env query =
     (case create_meeting_try env query of
        (Inl x, writes) \<Rightarrow> (''Failed to create event: '' @ snd x, writes)
      | (Inr text, writes) \<Rightarrow> (text, writes))"

subsection \<open>cancel\_meeting\<close>

text \<open>
  The names bound at module level in api\_modified\_new.py when a tool runs: the
  imports and the definitions of the module. \<^verbatim>\<open>pytz\<close> is not among them (the module
  imports \<^verbatim>\<open>tz\<close> from \<^verbatim>\<open>dateutil\<close>), and it is not a builtin.
\<close>

definition module_globals :: "string list" where
  "module_globals =
     [''os'', ''json'', ''logging'', ''datetime'', ''timedelta'', ''load_dotenv'',
      ''InstalledAppFlow'', ''build'', ''Request'', ''Credentials'', ''ChatOpenAI'',
      ''StateGraph'', ''END'', ''create_react_agent'', ''ToolNode'', ''tool'', ''parser'',
      ''tz'', ''TypedDict'', ''List'', ''Optional'', ''Tuple'', ''AIMessage'',
      ''HumanMessage'', ''ToolMessage'', ''BaseMessage'', ''FastAPI'', ''HTTPException'',
      ''CORSMiddleware'', ''BaseModel'', ''re'', ''logger'', ''SCOPES'', ''TOKEN_DIR'',
      ''get_user_service'', ''parse_user_query'', ''get_multi_user_events'',
      ''find_conflict_free_slot'', ''collect_time_preference'', ''create_meeting'',
      ''cancel_meeting'', ''reschedule_meeting'', ''list_participants'', ''tools'',
      ''AgentState'', ''llm'', ''react_agent'', ''tool_node'', ''router'', ''agent_node'',
      ''workflow'', ''app'', ''fastapi_app'', ''QueryInput'', ''state'', ''process_query'']"

definition lookup_global :: "string \<Rightarrow> exn + unit" where
  "lookup_global name =
     (if name \<in> set module_globals then Inr ()
      else Inl (NameError,
                ''name '' @ apostrophe @ name @ apostrophe @ '' is not defined''))"

definition canceled_text :: "event \<Rightarrow> string \<Rightarrow> string \<Rightarrow> string" where
  "canceled_text ev dflt event_id =
     ''Event '' @ apostrophe @ summary_or ev dflt @ apostrophe @ '' (ID: '' @ event_id
       @ '') canceled successfully.''"

text \<open>Step 1 of \<^verbatim>\<open>cancel_meeting\<close>: the query names an event id.\<close>

definition cancel_by_id :: "env \<Rightarrow> string \<Rightarrow> outcome" where
  "cancel_by_id env event_id =
     (case get_service env ''user1'' of
        Some x \<Rightarrow> raises x
      | None \<Rightarrow>
          (case gw_get env ''user1'' event_id of
             Inl x \<Rightarrow> returns (''Failed to cancel event by ID: '' @ snd x)
           | Inr evt \<Rightarrow>
               (case gw_delete env ''user1'' event_id of
                  Some x \<Rightarrow> returns (''Failed to cancel event by ID: '' @ snd x)
                | None \<Rightarrow>
                    (Inr (canceled_text evt ''<no title>'' event_id),
                     [Delete ''user1'' event_id]))))"

text \<open>
  Step 2 after the attendee test, from \<^verbatim>\<open>now = datetime.now(pytz.UTC)\<close> on. The
  text of the not-found message has a typographic apostrophe (U+2019), three bytes in
  UTF-8.
\<close>

definition day_filter_of :: "env \<Rightarrow> string \<Rightarrow> string option" where
  "day_filter_of env query =
     (case re_search env On_day query of
        None \<Rightarrow> None
      | Some g \<Rightarrow> if lower g \<in> set (map lower weekday_names) then Some (lower g) else None)"

definition time_filter_of :: "env \<Rightarrow> string \<Rightarrow> (int \<times> int) option" where
  "time_filter_of env query =
     (case re_search env At_time query of
        None \<Rightarrow> None
      | Some g \<Rightarrow>
          (case dateparse env g (today env) of
             Inl _ \<Rightarrow> None
           | Inr tf \<Rightarrow> Some (hour_of tf, minute_of tf)))"

definition not_found_text :: "string list \<Rightarrow> string" where
  "not_found_text attendees =
     ''Failed to cancel: couldn'' @ [CHR 0xE2, CHR 0x80, CHR 0x99] @ ''t find an event with ''
       @ join '', '' attendees @ ''.''"

definition cancel_by_attendees :: "env \<Rightarrow> string \<Rightarrow> string list \<Rightarrow> outcome" where
  "cancel_by_attendees env query attendees =
     (case lookup_global ''pytz'' of
        Inl x \<Rightarrow> raises x
      | Inr _ \<Rightarrow>
          (case dt_add (now env) (days 7) of
             Inl x \<Rightarrow> raises x
           | Inr end_time \<Rightarrow>
               (let day_filter = day_filter_of env query;
                    time_filter = time_filter_of env query
                in case collect_events env (now env) end_time [''user1'', ''user2''] of
                     Inl x \<Rightarrow> raises x
                   | Inr events \<Rightarrow>
                       (case find_cancel_target attendees day_filter time_filter events of
                          Inl x \<Rightarrow> raises x
                        | Inr None \<Rightarrow> returns (not_found_text attendees)
                        | Inr (Some target) \<Rightarrow>
                            (case ev_user_id target of
                               None \<Rightarrow> raises (KeyError, apostrophe @ ''user_id'' @ apostrophe)
                             | Some user_id \<Rightarrow>
                                 (case get_service env user_id of
                                    Some x \<Rightarrow> raises x
                                  | None \<Rightarrow>
                                      (case gw_delete env user_id (ev_id target) of
                                         Some x \<Rightarrow> raises x
                                       | None \<Rightarrow>
                                           (Inr (canceled_text target ''No Title''
                                                   (ev_id target)),
                                            [Delete user_id (ev_id target)]))))))))"

definition cancel_meeting_try :: "env \<Rightarrow> string \<Rightarrow> outcome" where
  "cancel_meeting_try env query =
     (case re_search env Cancel_event_id query of
        Some event_id \<Rightarrow> cancel_by_id env event_id
      | None \<Rightarrow>
          (case parse_user_query env query of
             Inl x \<Rightarrow> raises x
           | Inr parsed \<Rightarrow>
               if in_attendees parsed = []
               then returns ''Failed to cancel event: no attendees or event ID in your request.''
               else cancel_by_attendees env query (in_attendees parsed)))"

text \<open>The outer handler: \<^verbatim>\<open>except Exception as e: return f"Failed to cancel event: {e}"\<close>.\<close>

definition cancel_meeting :: "env \<Rightarrow> string \<Rightarrow> string \<times> gw_write list" where
  "cancel_meeting env query =
     (case cancel_meeting_try env query of
        (Inl x, writes) \<Rightarrow> (''Failed to cancel event: '' @ snd x, writes)
      | (Inr text, writes) \<Rightarrow> (text, writes))"

subsection \<open>reschedule\_meeting\<close>

text \<open>\<^verbatim>\<open>s.split(sep)[0]\<close> and \<^verbatim>\<open>s.replace(old, new)\<close> for a separator that is not empty.\<close>

fun before_sep :: "string \<Rightarrow> string \<Rightarrow> string" where
  "before_sep sep [] = []"
| "before_sep sep (c # cs) = (if starts_with sep (c # cs) then [] else c # before_sep sep cs)"

fun replace :: "nat \<Rightarrow> string \<Rightarrow> string \<Rightarrow> string \<Rightarrow> string" where
  "replace skip old new [] = []"
| "replace skip old new (c # cs) =
     (if 0 < skip then replace (skip - 1) old new cs
      else if starts_with old (c # cs) then new @ replace (length old - 1) old new cs
      else c # replace 0 old new cs)"

text \<open>The branch \<^verbatim>\<open>if not time_str:\<close>.\<close>

definition missing_time :: "env \<Rightarrow> string \<Rightarrow> string step" where
  "missing_time env query =
     (if contains_str (''whenever I'' @ apostrophe @ ''m free'') (lower query) then
        (case free_slot_tool env of
           Inl x \<Rightarrow> Raise x
         | Inr free_slot \<Rightarrow>
             if contains_str ''No free slot'' free_slot
             then Return ''Failed to reschedule event: No free slots available this week.''
             else Go (strip (replace 0 ''Suggested: '' [] (before_sep ''to'' free_slot))))
      else Return (''Failed to reschedule event: No valid new time specified. ''
                   @ ''Please provide a time like '' @ apostrophe @ ''Thursday at 5pm''
                   @ apostrophe @ ''.''))"

definition new_time_text :: "env \<Rightarrow> string \<Rightarrow> string option \<Rightarrow> string step" where
  "new_time_text env query time_str =
     (case time_str of
        None \<Rightarrow> missing_time env query
      | Some t \<Rightarrow> if t = [] then missing_time env query else Go t)"

definition unparsed_new_time_text :: "string \<Rightarrow> string" where
  "unparsed_new_time_text time_str =
     ''Failed to reschedule event: Could not parse new time '' @ apostrophe @ time_str
       @ apostrophe @ ''. Please use a format like '' @ apostrophe @ ''Thursday at 5pm''
       @ apostrophe @ '' or '' @ apostrophe @ ''July 16th at 6pm'' @ apostrophe @ ''.''"

text \<open>
  \<^verbatim>\<open>
    try:
        new_start = parser.parse(time_str, default=now + timedelta(days=1), fuzzy=True)
        new_start = new_start.replace(tzinfo=tz.UTC)
        new_end = new_start + timedelta(hours=1)
    except ValueError as e:
        return f"Failed to reschedule event: Could not parse new time ..."
  \<close>
\<close>

definition parse_new_time :: "env \<Rightarrow> string \<Rightarrow> (int \<times> int) step" where
  "parse_new_time env time_str =
     (case dt_add (now env) (days 1) of
        Inl x \<Rightarrow> Raise x
      | Inr dflt \<Rightarrow>
          (case dateparse env time_str dflt of
             Inl x \<Rightarrow>
               if fst x = ValueError then Return (unparsed_new_time_text time_str) else Raise x
           | Inr new_start \<Rightarrow>
               (case dt_add new_start (hours 1) of
                  Inl x \<Rightarrow> Raise x
                | Inr new_end \<Rightarrow> Go (new_start, new_end))))"

definition rescheduled_text :: "event \<Rightarrow> string \<Rightarrow> string \<Rightarrow> string list \<Rightarrow> string" where
  "rescheduled_text updated_event event_id meet_link emails =
     ''Event rescheduled: '' @ html_link_text updated_event @ '' (ID: '' @ event_id
       @ '', Google Meet: '' @ meet_link @ '', Attendees: '' @ join '', '' emails @ '')''"

text \<open>
  The \<^verbatim>\<open>try\<close> around \<^verbatim>\<open>events().update\<close>, shared by both paths: the update, then the
  confirmation text, whose exceptions the same handler turns into a failure text.
  \<open>listed\<close> is the event whose attendees the text lists: the fetched event on the
  id path, the updated one (\<open>None\<close> here) on the search path.
\<close>

definition update_and_confirm ::
  "env \<Rightarrow> string \<Rightarrow> string \<Rightarrow> event \<Rightarrow> event option \<Rightarrow> outcome" where
  "update_and_confirm env user_id event_id body listed =
     (case gw_update env user_id event_id body of
        Inl x \<Rightarrow> returns (''Failed to reschedule event: '' @ snd x)
      | Inr updated_event \<Rightarrow>
          (case meet_link_of updated_event ''No Google Meet link'' of
             Inl x \<Rightarrow>
               (Inr (''Failed to reschedule event: '' @ snd x), [Update user_id event_id body])
           | Inr meet_link \<Rightarrow>
               (case attendee_emails
                       (ev_attendees (case listed of None \<Rightarrow> updated_event | Some ev \<Rightarrow> ev)) of
                  Inl x \<Rightarrow>
                    (Inr (''Failed to reschedule event: '' @ snd x),
                     [Update user_id event_id body])
                | Inr emails \<Rightarrow>
                    (Inr (rescheduled_text updated_event event_id meet_link emails),
                     [Update user_id event_id body]))))"

definition with_new_times :: "event \<Rightarrow> int \<Rightarrow> int \<Rightarrow> event" where
  "with_new_times ev new_start new_end =
     ev\<lparr>ev_start := Some (utc new_start), ev_end := Some (utc new_end)\<rparr>"

definition reschedule_by_id :: "env \<Rightarrow> string \<Rightarrow> int \<Rightarrow> int \<Rightarrow> outcome" where
  "reschedule_by_id env event_id new_start new_end =
     (case get_service env ''user1'' of
        Some x \<Rightarrow> raises x
      | None \<Rightarrow>
          (case gw_get env ''user1'' event_id of
             Inl x \<Rightarrow> returns (''Failed to reschedule event: '' @ snd x)
           | Inr event \<Rightarrow>
               update_and_confirm env ''user1'' event_id
                 (with_new_times event new_start new_end)
                 (Some (with_new_times event new_start new_end))))"

text \<open>The window of the search: the next seven days, or the day of \<^verbatim>\<open>old_time\<close>.\<close>

definition search_window :: "env \<Rightarrow> string option \<Rightarrow> int \<Rightarrow> exn + int \<times> int" where
  "search_window env old_time_str end_time =
     (case old_time_str of
        None \<Rightarrow> Inr (now env, end_time)
      | Some old \<Rightarrow>
          if old = [] then Inr (now env, end_time)
          else
            (case dateparse env old (now env) of
               Inl x \<Rightarrow> if fst x = ValueError then Inr (now env, end_time) else Inl x
             | Inr old_start \<Rightarrow>
                 (case dt_add (floor_day old_start) (days 1) of
                    Inl x \<Rightarrow> Inl x
                  | Inr time_max \<Rightarrow> Inr (floor_day old_start, time_max))))"

definition pick_target :: "env \<Rightarrow> intent \<Rightarrow> event list \<Rightarrow> event option step" where
  "pick_target env parsed events =
     (if in_is_first parsed then
        (case in_old_time parsed of
           None \<Rightarrow>
             Return (''Failed to reschedule event: Please specify the date for '' @ apostrophe
                     @ ''first meeting'' @ apostrophe @ '' (e.g., '' @ apostrophe @ ''tomorrow''
                     @ apostrophe @ '').'')
         | Some old \<Rightarrow>
             if old = [] then
               Return (''Failed to reschedule event: Please specify the date for '' @ apostrophe
                       @ ''first meeting'' @ apostrophe @ '' (e.g., '' @ apostrophe
                       @ ''tomorrow'' @ apostrophe @ '').'')
             else
               (case dateparse env old (now env) of
                  Inl x \<Rightarrow>
                    if fst x = ValueError then
                      Return (''Failed to reschedule event: Could not parse old time for ''
                              @ apostrophe
                              @ ''first meeting MAGICAL_STRING_FOR_TESTING_ONLY_DO_NOT_USE_IN_PRODUCTION''
                              @ apostrophe @ '' query.'')
                    else Raise x
                | Inr old_start \<Rightarrow>
                    (case first_on_date old_start events of
                       Inl x \<Rightarrow> Raise x
                     | Inr target \<Rightarrow> Go target)))
      else Go (match_events (in_attendees parsed) (Some (in_summary parsed)) events))"

definition no_match_text :: "string list \<Rightarrow> string" where
  "no_match_text attendees =
     ''Failed to reschedule event: No matching event found with attendees ''
       @ join '', '' attendees @ ''. Try '' @ apostrophe @ ''show upcoming events'' @ apostrophe
       @ '' to get the event ID.''"

definition reschedule_by_search :: "env \<Rightarrow> intent \<Rightarrow> int \<Rightarrow> int \<Rightarrow> int \<Rightarrow> outcome" where
  "reschedule_by_search env parsed end_time new_start new_end =
     (case search_window env (in_old_time parsed) end_time of
        Inl x \<Rightarrow> raises x
      | Inr (time_min, time_max) \<Rightarrow>
          (case collect_events env time_min time_max [''user1'', ''user2''] of
             Inl x \<Rightarrow> raises x
           | Inr events \<Rightarrow>
               (case pick_target env parsed events of
                  Raise x \<Rightarrow> raises x
                | Return text \<Rightarrow> returns text
                | Go None \<Rightarrow> returns (no_match_text (in_attendees parsed))
                | Go (Some target_event) \<Rightarrow>
                    (case ev_user_id target_event of
                       None \<Rightarrow> raises (KeyError, apostrophe @ ''user_id'' @ apostrophe)
                     | Some user_id \<Rightarrow>
                         (case get_service env user_id of
                            Some x \<Rightarrow> raises x
                          | None \<Rightarrow>
                              update_and_confirm env user_id (ev_id target_event)
                                (with_new_times target_event new_start new_end) None)))))"

definition reschedule_meeting_try :: "env \<Rightarrow> string \<Rightarrow> outcome" where
  "reschedule_meeting_try env query =
     (case parse_user_query env query of
        Inl x \<Rightarrow> raises x
      | Inr parsed \<Rightarrow>
          (case new_time_text env query (in_time parsed) of
             Raise x \<Rightarrow> raises x
           | Return text \<Rightarrow> returns text
           | Go time_str \<Rightarrow>
               (case dt_add (now env) (days 7) of
                  Inl x \<Rightarrow> raises x
                | Inr end_time \<Rightarrow>
                    (case parse_new_time env time_str of
                       Raise x \<Rightarrow> raises x
                     | Return text \<Rightarrow> returns text
                     | Go (new_start, new_end) \<Rightarrow>
                         (case re_search env Reschedule_id query of
                            Some event_id \<Rightarrow> reschedule_by_id env event_id new_start new_end
                          | None \<Rightarrow>
                              reschedule_by_search env parsed end_time new_start new_end)))))"

text \<open>
  The outer handler:
  \<^verbatim>\<open>return f"Failed to reschedule event: {str(e)}. Please check the event details or try again."\<close>.
\<close>

definition reschedule_meeting :: "env \<Rightarrow> string \<Rightarrow> string \<times> gw_write list" where
  "reschedule_meeting env query =
     (case reschedule_meeting_try env query of
        (Inl x, writes) \<Rightarrow>
          (''Failed to reschedule event: '' @ snd x
             @ ''. Please check the event details or try again.'', writes)
      | (Inr text, writes) \<Rightarrow> (text, writes))"

subsection \<open>What a write sends\<close>

text \<open>
  The event of a write starts on a UTC reading and ends exactly one hour later. A
  delete sends no event.
\<close>

fun one_hour_event :: "gw_write \<Rightarrow> bool" where
  "one_hour_event (Insert uid body) =
     (utcoff (ne_start body) = 0 \<and> ne_end body = utc (wall (ne_start body) + hours 1))"
| "one_hour_event (Update uid event_id ev) =
     (case ev_start ev of
        None \<Rightarrow> False
      | Some s \<Rightarrow> utcoff s = 0 \<and> ev_end ev = Some (utc (wall s + hours 1)))"
| "one_hour_event (Delete uid event_id) = False"

section \<open>Concrete environments\<close>

text \<open>
  Environments on which the theorems below are exercised. \<open>new_year\<close> is
  2025-01-01T00:00 (a Wednesday) in microseconds since 0001-01-01T00:00. In \<open>base_env\<close>
  no pattern matches, no time parses, and both calendars are empty and accept every
  write.
\<close>

definition new_year :: int where
  "new_year = days 739251"

definition blank_event :: event where
  "blank_event =
     \<lparr>ev_id = ''evt0'', ev_summary = None, ev_start = None, ev_end = None,
      ev_attendees = [], ev_html_link = None, ev_entry_points = None, ev_user_id = None\<rparr>"

definition base_env :: env where
  "base_env =
     \<lparr>now = new_year,
      today = new_year,
      re_match = (\<lambda>i q. None),
      re_search = (\<lambda>p q. None),
      dateparse = (\<lambda>s d. Inl (ValueError, ''Unknown string format: '' @ s)),
      get_service = (\<lambda>uid. None),
      gw_list = (\<lambda>uid a b. Inr []),
      gw_get = (\<lambda>uid i. Inl (OtherError, ''Not Found'')),
      gw_insert = (\<lambda>uid b. Inr blank_event),
      gw_update = (\<lambda>uid i b. Inr b),
      gw_delete = (\<lambda>uid i. None),
      free_slot_tool = Inl (TypeError, ''missing 1 required positional argument'')\<rparr>"






text \<open>
  What \<^verbatim>\<open>re.match\<close> answers on the sample queries used below: for each query the index
  of the first of the five patterns that matches it, with the \<^verbatim>\<open>groupdict()\<close> of the
  match. The query \<^verbatim>\<open>first\<close> is matched by none of the patterns.
\<close>

definition sample_matches :: "((nat \<times> string) \<times> (string \<times> string option) list) list" where
  "sample_matches =
     [((1, ''reschedule first meeting with akash tomorrow to 5pm''),
         [(''attendees'', Some ''akash''), (''old_time'', Some ''tomorrow''),
          (''time'', Some ''5pm''), (''summary'', None)]),
      ((1, ''reschedule meeting with akash to 5pm''),
         [(''attendees'', Some ''akash''), (''old_time'', None),
          (''time'', Some ''5pm''), (''summary'', None)]),
      ((0, ''create a meeting with akash at 3:15:30pm saturday''),
         [(''attendees'', Some ''akash''), (''time'', Some ''3:15:30pm''),
          (''summary'', Some ''saturday'')]),
      ((0, ''create a meeting with akash at 3pm saturday''),
         [(''attendees'', Some ''akash''), (''time'', Some ''3pm''),
          (''summary'', Some ''saturday'')]),
      ((0, ''create a meeting with akash at 3pm''),
         [(''attendees'', Some ''akash''), (''time'', Some ''3pm''), (''summary'', None)]),
      ((2, ''cancel meeting with akash''),
         [(''attendees'', Some ''akash''), (''summary'', None)]),
      ((4, ''reschedule the first meeting tomorrow to 5pm''),
         [(''old_time'', Some ''tomorrow''), (''time'', Some ''5pm''), (''summary'', None)])]"

definition sample_re_match :: "nat \<Rightarrow> string \<Rightarrow> (string \<rightharpoonup> string option) option" where
  "sample_re_match i q = map_option map_of (map_of sample_matches (i, q))"

definition sample_env :: env where
  "sample_env = base_env\<lparr>re_match := sample_re_match\<rparr>"

text \<open>
  \<^verbatim>\<open>dateutil\<close> on the time texts of the sample queries: a time of day is put on the
  date of the default; a text without any date or time raises.
\<close>

definition sample_dateparse :: "string \<Rightarrow> int \<Rightarrow> exn + int" where
  "sample_dateparse s dflt =
     (if s = ''3pm'' then Inr (floor_day dflt + hours 15)
      else if s = ''5pm'' then Inr (floor_day dflt + hours 17)
      else if s = ''3:15:30pm'' then Inr (floor_day dflt + hours 15 + minutes 15 + seconds 30)
      else Inl (ValueError, ''String does not contain a date: '' @ s))"

definition meet_event :: event where
  "meet_event =
     blank_event\<lparr>ev_id := ''evt9'', ev_html_link := Some ''https://calendar.example/evt9'',
       ev_entry_points := Some [Some ''https://meet.example/abc'']\<rparr>"

text \<open>
  user1 has a 90-minute meeting with Akash on new year's day from 10:00; inserts and
  updates answer with a conference link.
\<close>

definition akash_meeting :: event where
  "akash_meeting =
     blank_event\<lparr>ev_id := ''evt1'', ev_summary := Some ''Meeting'',
       ev_start := Some (utc (new_year + hours 10)),
       ev_end := Some (utc (new_year + hours 11 + minutes 30)),
       ev_attendees := [Some ''akashmehta556@gmail.com'']\<rparr>"

definition office_env :: env where
  "office_env =
     base_env\<lparr>re_match := sample_re_match,
       dateparse := sample_dateparse,
       gw_list := (\<lambda>uid a b. if uid = ''user1'' then Inr [akash_meeting] else Inr []),
       gw_insert := (\<lambda>uid b. Inr meet_event),
       gw_update := (\<lambda>uid i b. Inr (b\<lparr>ev_entry_points := Some [Some ''https://meet.example/abc'']\<rparr>))\<rparr>"

text \<open>The same, but the insert answers with an empty list of entry points.\<close>

definition no_entry_env :: env where
  "no_entry_env =
     office_env\<lparr>gw_insert := (\<lambda>uid b. Inr (meet_event\<lparr>ev_entry_points := Some []\<rparr>))\<rparr>"

text \<open>
  Two events for the matcher: a note whose title quotes an address and that has no
  attendees, and a later meeting that the owner of the address attends.
\<close>

definition note_event :: event where
  "note_event =
     blank_event\<lparr>ev_id := ''evt2'', ev_summary := Some ''Reply to a@x.com'',
       ev_start := Some (utc (new_year + hours 9)),
       ev_end := Some (utc (new_year + hours 10))\<rparr>"

definition call_event :: event where
  "call_event =
     blank_event\<lparr>ev_id := ''evt3'', ev_summary := Some ''Meeting'',
       ev_start := Some (utc (new_year + hours 13)),
       ev_end := Some (utc (new_year + hours 14)),
       ev_attendees := [Some ''A@x.com'']\<rparr>"

section \<open>Properties of the sweep\<close>

lemma sweep_pointer_ge: "fst st \<le> fst (sweep d st busy)"
proof (induction busy arbitrary: st)
  case Nil
  show ?case by simp
next
  case (Cons b busy)
  obtain p free where st: "st = (p, free)" by (cases st)
  obtain s e where b: "b = (s, e)" by (cases b)
  have "fst st \<le> fst (sweep_step d st b)" by (simp add: st b)
  also have "\<dots> \<le> fst (sweep d (sweep_step d st b) busy)" by (rule Cons.IH)
  finally show ?case by simp
qed

lemma sweep_pointer_ge_ends:
  "(s, e) \<in> set busy \<Longrightarrow> e \<le> fst (sweep d st busy)"
proof (induction busy arbitrary: st)
  case Nil
  then show ?case by simp
next
  case (Cons b busy)
  obtain p free where st: "st = (p, free)" by (cases st)
  show ?case
  proof (cases "b = (s, e)")
    case True
    have "e \<le> fst (sweep_step d st b)" by (simp add: st True)
    also have "\<dots> \<le> fst (sweep d (sweep_step d st b) busy)" by (rule sweep_pointer_ge)
    finally show ?thesis by simp
  next
    case False
    with Cons.prems have "(s, e) \<in> set busy" by simp
    then show ?thesis using Cons.IH by simp
  qed
qed

lemma sweep_states_pointers_ge:
  "x \<in> set (sweep_states d st busy) \<Longrightarrow> fst st \<le> fst x"
proof (induction busy arbitrary: st)
  case Nil
  then show ?case by simp
next
  case (Cons b busy)
  obtain p free where st: "st = (p, free)" by (cases st)
  obtain s e where b: "b = (s, e)" by (cases b)
  from Cons.prems consider "x = st" | "x \<in> set (sweep_states d (sweep_step d st b) busy)"
    by auto
  then show ?case
  proof cases
    case 1
    then show ?thesis by simp
  next
    case 2
    then have "fst (sweep_step d st b) \<le> fst x" by (rule Cons.IH)
    then show ?thesis by (simp add: st b)
  qed
qed

lemma sweep_states_sorted: "sorted (map fst (sweep_states d st busy))"
proof (induction busy arbitrary: st)
  case Nil
  show ?case by simp
next
  case (Cons b busy)
  obtain p free where st: "st = (p, free)" by (cases st)
  obtain s e where b: "b = (s, e)" by (cases b)
  have "\<forall>x \<in> set (sweep_states d (sweep_step d st b) busy). fst st \<le> fst x"
  proof
    fix x assume "x \<in> set (sweep_states d (sweep_step d st b) busy)"
    then have "fst (sweep_step d st b) \<le> fst x" by (rule sweep_states_pointers_ge)
    then show "fst st \<le> fst x" by (simp add: st b)
  qed
  with Cons.IH [of "sweep_step d st b"] show ?case by simp
qed

lemma sweep_states_nonempty: "sweep_states d st busy \<noteq> []"
  by (cases busy) simp_all

lemma sweep_states_last: "last (sweep_states d st busy) = sweep d st busy"
  by (induction busy arbitrary: st) (simp_all add: sweep_states_nonempty)

subsection \<open>Free slots are long enough and lie in the window\<close>

lemma sweep_slots_long:
  assumes "\<forall>(a, b) \<in> set (snd st). d \<le> b - a"
  shows "\<forall>(a, b) \<in> set (snd (sweep d st busy)). d \<le> b - a"
  using assms
proof (induction busy arbitrary: st)
  case Nil
  then show ?case by simp
next
  case (Cons x busy)
  obtain p free where st: "st = (p, free)" by (cases st)
  obtain s e where x: "x = (s, e)" by (cases x)
  have "\<forall>(a, b) \<in> set (snd (sweep_step d st x)). d \<le> b - a"
    using Cons.prems by (auto simp: st x)
  then show ?case using Cons.IH by simp
qed

lemma sweep_free_slots_long:
  "(a, b) \<in> set (sweep_free d ws we busy) \<Longrightarrow> d \<le> b - a"
proof -
  assume ab: "(a, b) \<in> set (sweep_free d ws we busy)"
  obtain p free where sw: "sweep d (ws, []) busy = (p, free)"
    by (cases "sweep d (ws, []) busy")
  have "\<forall>(a, b) \<in> set (snd (sweep d (ws, []) busy)). d \<le> b - a"
    by (rule sweep_slots_long) simp
  then have free: "\<forall>(a, b) \<in> set free. d \<le> b - a" by (simp add: sw)
  from ab have "(a, b) \<in> set free \<or> ((a, b) = (p, we) \<and> d \<le> we - p)"
    by (auto simp: sweep_free_def sw split: if_splits)
  with free show ?thesis by auto
qed

lemma sweep_slots_in_window:
  assumes "\<forall>(a, b) \<in> set (snd st). ws \<le> a \<and> b \<le> we"
    and "ws \<le> fst st"
    and "\<forall>(s, e) \<in> set busy. s \<le> we"
  shows "\<forall>(a, b) \<in> set (snd (sweep d st busy)). ws \<le> a \<and> b \<le> we"
  using assms
proof (induction busy arbitrary: st)
  case Nil
  then show ?case by simp
next
  case (Cons x busy)
  obtain p free where st: "st = (p, free)" by (cases st)
  obtain s e where x: "x = (s, e)" by (cases x)
  have 1: "\<forall>(a, b) \<in> set (snd (sweep_step d st x)). ws \<le> a \<and> b \<le> we"
    using Cons.prems by (auto simp: st x)
  have 2: "ws \<le> fst (sweep_step d st x)"
    using Cons.prems(2) by (simp add: st x)
  have 3: "\<forall>(s, e) \<in> set busy. s \<le> we"
    using Cons.prems(3) by simp
  show ?case using Cons.IH [OF 1 2 3] by simp
qed

lemma sweep_free_in_window:
  assumes "\<forall>(s, e) \<in> set busy. s \<le> we"
    and "(a, b) \<in> set (sweep_free d ws we busy)"
  shows "ws \<le> a \<and> b \<le> we"
proof -
  obtain p free where sw: "sweep d (ws, []) busy = (p, free)"
    by (cases "sweep d (ws, []) busy")
  have "\<forall>(a, b) \<in> set (snd (sweep d (ws, []) busy)). ws \<le> a \<and> b \<le> we"
    by (rule sweep_slots_in_window) (use assms(1) in simp_all)
  then have free: "\<forall>(a, b) \<in> set free. ws \<le> a \<and> b \<le> we" by (simp add: sw)
  have "ws \<le> fst (sweep d (ws, []) busy)"
    using sweep_pointer_ge [of "(ws, [])" d busy] by simp
  then have p: "ws \<le> p" by (simp add: sw)
  from assms(2) have "(a, b) \<in> set free \<or> (a, b) = (p, we)"
    by (auto simp: sweep_free_def sw split: if_splits)
  with free p show ?thesis by auto
qed

subsection \<open>Every instant of the window is accounted for\<close>

lemma covered_mono: "covered xs t \<Longrightarrow> set xs \<subseteq> set ys \<Longrightarrow> covered ys t"
  unfolding covered_def by blast

lemma covered_append: "covered (xs @ ys) t = (covered xs t \<or> covered ys t)"
  unfolding covered_def by auto

lemma covered_single: "covered [(a, b)] t = (a \<le> t \<and> t < b)"
  unfolding covered_def by simp

lemma accounted_step:
  assumes inv: "\<forall>t. ws \<le> t \<and> t < p \<longrightarrow> accounted d ws seen free t"
    and ptr: "p \<in> set (ws # map snd seen)"
  shows "\<forall>t. ws \<le> t \<and> t < fst (sweep_step d (p, free) (s, e)) \<longrightarrow>
           accounted d ws (seen @ [(s, e)]) (snd (sweep_step d (p, free) (s, e))) t"
proof (intro allI impI)
  fix t
  assume t: "ws \<le> t \<and> t < fst (sweep_step d (p, free) (s, e))"
  let ?free' = "snd (sweep_step d (p, free) (s, e))"
  show "accounted d ws (seen @ [(s, e)]) ?free' t"
  proof (cases "t < p")
    case True
    with t inv have a: "accounted d ws seen free t" by simp
    from a consider "covered seen t" | "covered free t"
      | a b where "a \<in> set (ws # map snd seen)" "b \<in> set (map fst seen)" "a \<le> t" "t < b" "b - a < d"
      unfolding accounted_def by blast
    then show ?thesis
    proof cases
      case 1
      then have "covered (seen @ [(s, e)]) t" by (simp add: covered_append)
      then show ?thesis unfolding accounted_def by simp
    next
      case 2
      then have "covered ?free' t" by (simp add: covered_append)
      then show ?thesis unfolding accounted_def by simp
    next
      case 3
      then have "a \<in> set (ws # map snd (seen @ [(s, e)]))" "b \<in> set (map fst (seen @ [(s, e)]))"
        by auto
      with 3 show ?thesis unfolding accounted_def by blast
    qed
  next
    case False
    with t have pe: "p \<le> t" "t < e" by (auto simp: max_def split: if_splits)
    show ?thesis
    proof (cases "s \<le> t")
      case True
      with pe have "covered (seen @ [(s, e)]) t" by (simp add: covered_append covered_single)
      then show ?thesis unfolding accounted_def by simp
    next
      case nts: False
      show ?thesis
      proof (cases "d \<le> s - p")
        case True
        with pe nts have "covered ?free' t" by (simp add: covered_append covered_single)
        then show ?thesis unfolding accounted_def by simp
      next
        case False
        have "p \<in> set (ws # map snd (seen @ [(s, e)]))" using ptr by auto
        moreover have "s \<in> set (map fst (seen @ [(s, e)]))" by simp
        moreover have "p \<le> t \<and> t < s \<and> s - p < d" using pe nts False by simp
        ultimately show ?thesis unfolding accounted_def by blast
      qed
    qed
  qed
qed

lemma sweep_accounts:
  assumes "\<forall>t. ws \<le> t \<and> t < fst st \<longrightarrow> accounted d ws seen (snd st) t"
    and "fst st \<in> set (ws # map snd seen)"
  shows "(\<forall>t. ws \<le> t \<and> t < fst (sweep d st busy) \<longrightarrow>
            accounted d ws (seen @ busy) (snd (sweep d st busy)) t)
         \<and> fst (sweep d st busy) \<in> set (ws # map snd (seen @ busy))"
  using assms
proof (induction busy arbitrary: st seen)
  case Nil
  then show ?case by simp
next
  case (Cons x busy)
  obtain p free where st: "st = (p, free)" by (cases st)
  obtain s e where x: "x = (s, e)" by (cases x)
  have inv: "\<forall>t. ws \<le> t \<and> t < p \<longrightarrow> accounted d ws seen free t"
    using Cons.prems(1) by (simp add: st)
  have ptr: "p \<in> set (ws # map snd seen)"
    using Cons.prems(2) by (simp add: st)
  have 1: "\<forall>t. ws \<le> t \<and> t < fst (sweep_step d st x) \<longrightarrow>
             accounted d ws (seen @ [x]) (snd (sweep_step d st x)) t"
    unfolding st x by (rule accounted_step [OF inv ptr])
  have 2: "fst (sweep_step d st x) \<in> set (ws # map snd (seen @ [x]))"
    using ptr by (auto simp: st x max_def)
  from Cons.IH [OF 1 2] show ?case by simp
qed

lemma sweep_free_accounts:
  assumes t: "ws \<le> t" "t < we"
  shows "covered busy t \<or> covered (sweep_free d ws we busy) t \<or> in_short_gap d ws we busy t"
proof -
  obtain p free where sw: "sweep d (ws, []) busy = (p, free)"
    by (cases "sweep d (ws, []) busy")
  have "(\<forall>t. ws \<le> t \<and> t < fst (sweep d (ws, []) busy) \<longrightarrow>
            accounted d ws ([] @ busy) (snd (sweep d (ws, []) busy)) t)
         \<and> fst (sweep d (ws, []) busy) \<in> set (ws # map snd ([] @ busy))"
    by (rule sweep_accounts) auto
  then have inv: "\<forall>t. ws \<le> t \<and> t < p \<longrightarrow> accounted d ws busy free t"
    and ptr: "p \<in> set (ws # map snd busy)"
    by (simp_all add: sw)
  show ?thesis
  proof (cases "t < p")
    case True
    with t inv have "accounted d ws busy free t" by simp
    then consider "covered busy t" | "covered free t"
      | a b where "a \<in> set (ws # map snd busy)" "b \<in> set (map fst busy)" "a \<le> t" "t < b" "b - a < d"
      unfolding accounted_def by blast
    then show ?thesis
    proof cases
      case 1
      then show ?thesis by simp
    next
      case 2
      then have "covered (sweep_free d ws we busy) t"
        by (simp add: sweep_free_def sw covered_append)
      then show ?thesis by simp
    next
      case 3
      then have "b \<in> set (we # map fst busy)" by simp
      with 3 have "in_short_gap d ws we busy t" unfolding in_short_gap_def by blast
      then show ?thesis by simp
    qed
  next
    case False
    show ?thesis
    proof (cases "d \<le> we - p")
      case True
      with False t have "covered (sweep_free d ws we busy) t"
        by (simp add: sweep_free_def sw covered_append covered_single)
      then show ?thesis by simp
    next
      case nd: False
      have "we \<in> set (we # map fst busy)" by simp
      moreover have "p \<le> t \<and> t < we \<and> we - p < d" using False t nd by simp
      ultimately have "in_short_gap d ws we busy t"
        unfolding in_short_gap_def using ptr by blast
      then show ?thesis by simp
    qed
  qed
qed

subsection \<open>Free slots avoid busy intervals and come in chronological order\<close>

lemma sweep_new_slots:
  assumes "sorted (map fst busy)" and "(a, b) \<in> set (snd (sweep d st busy))"
  shows "(a, b) \<in> set (snd st) \<or> (fst st \<le> a \<and> (\<forall>x \<in> set busy. \<not> overlaps (a, b) x))"
  using assms
proof (induction busy arbitrary: st)
  case Nil
  then show ?case by simp
next
  case (Cons x busy)
  obtain p free where st: "st = (p, free)" by (cases st)
  obtain s e where x: "x = (s, e)" by (cases x)
  have srt: "sorted (map fst busy)" and later: "\<forall>y \<in> set busy. s \<le> fst y"
    using Cons.prems(1) by (auto simp: x)
  have mem: "(a, b) \<in> set (snd (sweep d (sweep_step d st x) busy))"
    using Cons.prems(2) by simp
  from Cons.IH [OF srt mem]
  consider (old) "(a, b) \<in> set free"
    | (new) "(a, b) = (p, s)" "d \<le> s - p"
    | (rest) "max p e \<le> a" "\<forall>y \<in> set busy. \<not> overlaps (a, b) y"
    by (auto simp: st x split: if_splits)
  then show ?case
  proof cases
    case old
    then show ?thesis by (simp add: st)
  next
    case new
    have "\<not> overlaps (a, b) (s, e)" using new by (simp add: overlaps_def)
    moreover have "\<forall>y \<in> set busy. \<not> overlaps (a, b) y"
    proof
      fix y assume "y \<in> set busy"
      with later have "s \<le> fst y" by simp
      then show "\<not> overlaps (a, b) y" using new by (simp add: overlaps_def)
    qed
    ultimately show ?thesis using new by (simp add: st x)
  next
    case rest
    have "\<not> overlaps (a, b) (s, e)" using rest(1) by (simp add: overlaps_def)
    then show ?thesis using rest by (simp add: st x)
  qed
qed

lemma sweep_free_no_overlap:
  assumes "sorted (map fst busy)" and "f \<in> set (sweep_free d ws we busy)" and "x \<in> set busy"
  shows "\<not> overlaps f x"
proof -
  obtain a b where f: "f = (a, b)" by (cases f)
  obtain s e where x: "x = (s, e)" by (cases x)
  obtain p free where sw: "sweep d (ws, []) busy = (p, free)"
    by (cases "sweep d (ws, []) busy")
  from assms(2) consider "(a, b) \<in> set free" | "(a, b) = (p, we)"
    by (auto simp: f sweep_free_def sw split: if_splits)
  then show ?thesis
  proof cases
    case 1
    then have "(a, b) \<in> set (snd (sweep d (ws, []) busy))" by (simp add: sw)
    from sweep_new_slots [OF assms(1) this] assms(3) show ?thesis by (simp add: f)
  next
    case 2
    have "e \<le> fst (sweep d (ws, []) busy)"
      using assms(3) unfolding x by (rule sweep_pointer_ge_ends)
    then have "e \<le> p" by (simp add: sw)
    then show ?thesis using 2 by (simp add: f x overlaps_def)
  qed
qed

lemma sweep_slot_starts_sorted:
  assumes "sorted (map fst (snd st))" and "\<forall>f \<in> set (snd st). fst f \<le> fst st"
  shows "sorted (map fst (snd (sweep d st busy)))
         \<and> (\<forall>f \<in> set (snd (sweep d st busy)). fst f \<le> fst (sweep d st busy))"
  using assms
proof (induction busy arbitrary: st)
  case Nil
  then show ?case by simp
next
  case (Cons x busy)
  obtain p free where st: "st = (p, free)" by (cases st)
  obtain s e where x: "x = (s, e)" by (cases x)
  have 1: "sorted (map fst (snd (sweep_step d st x)))"
    using Cons.prems by (auto simp: st x sorted_append)
  have 2: "\<forall>f \<in> set (snd (sweep_step d st x)). fst f \<le> fst (sweep_step d st x)"
    using Cons.prems(2) by (auto simp: st x)
  from Cons.IH [OF 1 2] show ?case by simp
qed

lemma sweep_free_starts_sorted: "sorted (map fst (sweep_free d ws we busy))"
proof -
  obtain p free where sw: "sweep d (ws, []) busy = (p, free)"
    by (cases "sweep d (ws, []) busy")
  have "sorted (map fst (snd (sweep d (ws, []) busy)))
         \<and> (\<forall>f \<in> set (snd (sweep d (ws, []) busy)). fst f \<le> fst (sweep d (ws, []) busy))"
    by (rule sweep_slot_starts_sorted) simp_all
  then have "sorted (map fst free)" "\<forall>f \<in> set free. fst f \<le> p"
    by (simp_all add: sw)
  then show ?thesis
    by (auto simp: sweep_free_def sw sorted_append)
qed

lemma sorted_starts_hd_least:
  "sorted (map fst (x # xs)) \<Longrightarrow> y \<in> set (x # xs) \<Longrightarrow> fst x \<le> fst y"
  by auto

lemma covered_sort: "covered (sort busy) t = covered busy t"
  unfolding covered_def by simp

lemma in_short_gap_sort: "in_short_gap d ws we (sort busy) t = in_short_gap d ws we busy t"
proof -
  have "set (map snd (sort busy)) = set (map snd busy)"
    "set (map fst (sort busy)) = set (map fst busy)"
    by simp_all
  then show ?thesis unfolding in_short_gap_def by simp
qed



subsection \<open>The first slot of the sweep is the earliest qualifying gap\<close>





section \<open>Properties of the datetime arithmetic\<close>

lemma minutes_pos: "0 < minutes 1"
  by (simp add: minutes_def seconds_def us_per_second_def)

lemma hours_minutes: "hours 1 = minutes 1 * 60"
  by (simp add: minutes_def hours_def seconds_def us_per_second_def)

lemma days_minutes: "days n = minutes 1 * (1440 * n)"
  by (simp add: minutes_def days_def seconds_def us_per_second_def)

lemma minutes_seconds: "minutes 1 = seconds 1 * 60" "0 < seconds 1"
  by (simp_all add: minutes_def seconds_def us_per_second_def)

lemma floor_minute_eq: "floor_minute w = minutes 1 * (w div minutes 1)"
  unfolding floor_minute_def by (simp add: minus_mod_eq_mult_div)

lemma div_div_minutes:
  assumes "0 < k"
  shows "(minutes 1 * q) div (minutes 1 * k) = q div k"
    and "w div (minutes 1 * k) = (w div minutes 1) div k"
proof -
  from minutes_pos have "minutes 1 \<noteq> 0" by simp
  then show "(minutes 1 * q) div (minutes 1 * k) = q div k" by (rule div_mult_mult1)
  from assms have "0 \<le> k" by simp
  then show "w div (minutes 1 * k) = (w div minutes 1) div k" by (rule zdiv_zmult2_eq)
qed

lemma date_of_floor_minute: "date_of (floor_minute w) = date_of w"
proof -
  have d: "days 1 = minutes 1 * 1440" using days_minutes [of 1] by simp
  show ?thesis
    unfolding date_of_def floor_minute_eq d
    using div_div_minutes(1) [of 1440 "w div minutes 1"] div_div_minutes(2) [of 1440 w] by simp
qed

lemma hour_of_floor_minute: "hour_of (floor_minute w) = hour_of w"
  unfolding hour_of_def floor_minute_eq hours_minutes
  using div_div_minutes(1) [of 60 "w div minutes 1"] div_div_minutes(2) [of 60 w] by simp

lemma minute_of_floor_minute: "minute_of (floor_minute w) = minute_of w"
proof -
  from minutes_pos have "(minutes 1 * (w div minutes 1)) div minutes 1 = w div minutes 1"
    by simp
  then show ?thesis unfolding minute_of_def floor_minute_eq by simp
qed

lemma second_of_floor_minute: "second_of (floor_minute w) = 0"
proof -
  have "(seconds 1 * (60 * (w div minutes 1))) div seconds 1 = 60 * (w div minutes 1)"
    using minutes_seconds(2) by simp
  then have "(minutes 1 * (w div minutes 1)) div seconds 1 = 60 * (w div minutes 1)"
    unfolding minutes_seconds(1) by (simp add: mult.assoc)
  then show ?thesis unfolding second_of_def floor_minute_eq by simp
qed

lemma microsecond_of_floor_minute: "microsecond_of (floor_minute w) = 0"
proof -
  have "(seconds 1 * (60 * (w div minutes 1))) mod seconds 1 = 0" by simp
  then have "(minutes 1 * (w div minutes 1)) mod seconds 1 = 0"
    unfolding minutes_seconds(1) by (simp add: mult.assoc)
  then show ?thesis unfolding microsecond_of_def floor_minute_eq by simp
qed

lemma div_minutes_add_days: "(w + days n) div minutes 1 = w div minutes 1 + 1440 * n"
  unfolding days_minutes using minutes_pos by simp

lemma date_of_add_days: "date_of (w + days n) = date_of w + n"
proof -
  have d: "days 1 = minutes 1 * 1440" using days_minutes [of 1] by simp
  have "(w + days n) div (minutes 1 * 1440) = ((w + days n) div minutes 1) div 1440"
    using div_div_minutes(2) [of 1440 "w + days n"] by simp
  also have "\<dots> = (w div minutes 1 + 1440 * n) div 1440"
    by (simp only: div_minutes_add_days)
  also have "\<dots> = (w div minutes 1) div 1440 + n" by simp
  also have "\<dots> = w div (minutes 1 * 1440) + n"
    using div_div_minutes(2) [of 1440 w] by simp
  finally show ?thesis unfolding date_of_def d .
qed

lemma hour_of_add_days: "hour_of (w + days n) = hour_of w"
proof -
  have "(w + days n) div (minutes 1 * 60) = ((w + days n) div minutes 1) div 60"
    using div_div_minutes(2) [of 60 "w + days n"] by simp
  also have "\<dots> = (w div minutes 1 + 60 * (24 * n)) div 60"
    by (simp add: div_minutes_add_days)
  also have "\<dots> = (w div minutes 1) div 60 + 24 * n" by simp
  also have "\<dots> = w div (minutes 1 * 60) + 24 * n"
    using div_div_minutes(2) [of 60 w] by simp
  finally show ?thesis unfolding hour_of_def hours_minutes by simp
qed

lemma minute_of_add_days: "minute_of (w + days n) = minute_of w"
proof -
  have "(w + days n) div minutes 1 = w div minutes 1 + 60 * (24 * n)"
    by (simp add: div_minutes_add_days)
  then have "minute_of (w + days n) = (w div minutes 1 + 60 * (24 * n)) mod 60"
    unfolding minute_of_def by (simp only:)
  also have "\<dots> = (w div minutes 1) mod 60" by (rule mod_mult_self2)
  finally show ?thesis unfolding minute_of_def .
qed

lemma adjust_weekday_unnamed:
  assumes "\<forall>(j, day) \<in> set xs. \<not> contains_str day query_lower"
  shows "adjust_weekday query_lower xs start = Inr start"
  using assms by (induction xs arbitrary: start) auto

lemma adjust_weekday_pre:
  assumes "\<forall>(j, day) \<in> set pre. \<not> contains_str day query_lower"
  shows "adjust_weekday query_lower (pre @ xs) start = adjust_weekday query_lower xs start"
  using assms by (induction pre arbitrary: start) auto

lemma adjust_weekday_single:
  assumes pre: "\<forall>(j, day) \<in> set pre. \<not> contains_str day query_lower"
    and post: "\<forall>(j, day) \<in> set post. \<not> contains_str day query_lower"
    and named: "contains_str day query_lower"
    and differs: "weekday start \<noteq> i"
    and ahead: "days_ahead = (int i - int (weekday start) + 7) mod 7"
    and nonzero: "days_ahead \<noteq> 0"
    and moved: "dt_add start (days days_ahead) = Inr moved"
  shows "adjust_weekday query_lower (pre @ (i, day) # post) start = Inr (floor_minute moved)"
proof -
  have "adjust_weekday query_lower (pre @ (i, day) # post) start
        = adjust_weekday query_lower ((i, day) # post) start"
    using pre by (rule adjust_weekday_pre)
  also have "\<dots> = adjust_weekday query_lower post (floor_minute moved)"
    using named differs nonzero moved unfolding ahead by (simp add: Let_def)
  also have "\<dots> = Inr (floor_minute moved)"
    using post by (rule adjust_weekday_unnamed)
  finally show ?thesis .
qed

lemma enumerate_split:
  assumes "i < length xs"
  shows "enumerate 0 xs = enumerate 0 (take i xs) @ (i, xs ! i) # enumerate (Suc i) (drop (Suc i) xs)"
proof -
  have "xs = take i xs @ xs ! i # drop (Suc i) xs"
    using assms by (simp add: id_take_nth_drop)
  then have "enumerate 0 xs = enumerate 0 (take i xs @ xs ! i # drop (Suc i) xs)" by simp
  also have "\<dots> = enumerate 0 (take i xs) @ enumerate i (xs ! i # drop (Suc i) xs)"
    using assms by (simp add: enumerate_append_eq)
  finally show ?thesis by simp
qed

lemma enumerate_set:
  "(j, x) \<in> set (enumerate k xs) \<Longrightarrow> k \<le> j \<and> j < k + length xs \<and> x = xs ! (j - k)"
  by (auto simp: in_set_enumerate_eq)

lemma weekday_less: "weekday w < 7"
  unfolding weekday_def by (simp add: nat_less_iff)

lemma int_weekday: "int (weekday w) = date_of w mod 7"
  unfolding weekday_def by simp

lemma days_ahead_range:
  assumes "i < 7" and "weekday start \<noteq> i"
  shows "1 \<le> (int i - int (weekday start) + 7) mod 7
       \<and> (int i - int (weekday start) + 7) mod 7 \<le> 6
       \<and> (date_of start + (int i - int (weekday start) + 7) mod 7) mod 7 = int i"
proof -
  define r where "r = date_of start mod 7"
  define k where "k = int i"
  have r: "0 \<le> r" "r < 7" by (simp_all add: r_def)
  have k: "0 \<le> k" "k < 7" using assms(1) by (simp_all add: k_def)
  have ne: "k \<noteq> r"
    using assms(2) unfolding k_def r_def int_weekday [symmetric] by simp
  have w: "int (weekday start) = r" by (simp add: r_def int_weekday)
  have 1: "1 \<le> (k - r + 7) mod 7 \<and> (k - r + 7) mod 7 \<le> 6"
    using r k ne by presburger
  have "(date_of start + (k - r + 7) mod 7) mod 7 = (r + (k - r + 7) mod 7) mod 7"
    unfolding r_def by presburger
  also have "\<dots> = k" using r k by presburger
  finally show ?thesis using 1 unfolding w k_def by simp
qed

lemma days_mono: "a \<le> b \<Longrightarrow> days a \<le> days b"
  by (simp add: days_def seconds_def us_per_second_def)

lemma days_nonneg: "0 \<le> a \<Longrightarrow> 0 \<le> days a"
  by (simp add: days_def seconds_def us_per_second_def)

lemma day_names_length: "length day_names = 7"
  by (simp add: day_names_def)
text \<open>With two weekdays named, the correction runs twice: Wednesday to Monday to Friday.\<close>

lemma weekday_correction_two_days:
  "adjust_weekday (lower ''create a meeting with akash at 3pm monday friday'')
     (enumerate 0 day_names) (new_year + hours 15)
   = Inr (new_year + days 9 + hours 15)"
  by code_simp

lemma friday_query_days:
  "\<forall>j \<in> set [0..<7]. j \<noteq> 5 \<longrightarrow>
     \<not> contains_str (day_names ! j) (lower ''create a meeting with akash at 3pm saturday'')"
  by code_simp

lemma friday_adjust:
  "adjust_weekday (lower ''create a meeting with akash at 3pm saturday'')
     (enumerate 0 day_names) (new_year + days 2 + hours 15)
   = Inr (new_year + days 3 + hours 15)"
  by code_simp

lemma adjust_weekday_single_overflow:
  assumes pre: "\<forall>(j, day) \<in> set pre. \<not> contains_str day query_lower"
    and named: "contains_str day query_lower"
    and differs: "weekday start \<noteq> i"
    and ahead: "days_ahead = (int i - int (weekday start) + 7) mod 7"
    and nonzero: "days_ahead \<noteq> 0"
    and moved: "dt_add start (days days_ahead) = Inl x"
  shows "adjust_weekday query_lower (pre @ (i, day) # post) start = Inl x"
proof -
  have "adjust_weekday query_lower (pre @ (i, day) # post) start
        = adjust_weekday query_lower ((i, day) # post) start"
    using pre by (rule adjust_weekday_pre)
  also have "\<dots> = Inl x"
    using named differs nonzero moved unfolding ahead by (simp add: Let_def)
  finally show ?thesis .
qed

lemma sunday_query_days:
  "\<forall>j \<in> set [0..<7]. j \<noteq> 6 \<longrightarrow>
     \<not> contains_str (day_names ! j) (lower ''create a meeting with akash at 3pm sunday'')"
  by code_simp

text \<open>
  On Friday 9999-12-31 the Sunday asked for lies past the last day a \<^verbatim>\<open>datetime\<close> holds,
  and the addition raises.
\<close>

lemma last_friday_adjust:
  "adjust_weekday (lower ''create a meeting with akash at 3pm sunday'')
     (enumerate 0 day_names) (max_wall - days 1 + hours 15)
   = Inl (OverflowError, ''date value out of range'')"
  by code_simp

section \<open>Properties of the parser\<close>

lemma try_patterns_is_first:
  assumes "contains_str ''first'' (lower query)"
    and "\<exists>i \<in> set is. re_match env i query \<noteq> None"
  shows "ps_is_first (try_patterns env query is st)"
  using assms(2)
proof (induction "is")
  case Nil
  then show ?case by simp
next
  case (Cons i "is")
  show ?case
  proof (cases "re_match env i query")
    case None
    with Cons.prems have "\<exists>i \<in> set is. re_match env i query \<noteq> None" by simp
    with Cons.IH None show ?thesis by simp
  next
    case (Some gd)
    with assms(1) show ?thesis by (simp add: Let_def)
  qed
qed

lemma sample_first:
  "parse_user_query sample_env ''reschedule first meeting with akash tomorrow to 5pm''
     = Inr \<lparr>in_summary = ''Meeting'', in_time = Some ''5pm'', in_old_time = Some ''tomorrow'',
            in_attendees = [''akashmehta556@gmail.com''], in_is_first = True\<rparr>"
  by code_simp

lemma first_match_None:
  "(first_match env query is = None) = (\<forall>i \<in> set is. re_match env i query = None)"
  by (induction "is") (auto split: option.splits)

lemma try_patterns_first_match:
  "try_patterns env query is st =
     (case first_match env query is of
        None \<Rightarrow> st
      | Some gd \<Rightarrow>
          (if contains_str ''first'' (lower query)
           then (update_state st gd)\<lparr>ps_is_first := True\<rparr> else update_state st gd))"
  by (induction "is") (auto simp: Let_def split: option.splits)

lemma try_patterns_no_match:
  assumes "\<forall>i \<in> set is. re_match env i query = None"
  shows "try_patterns env query is st = st"
  using assms by (simp add: try_patterns_first_match first_match_None [symmetric])

lemma parse_user_query_no_match:
  assumes "\<forall>i \<in> set [0, 1, 2, 3, 4]. re_match env i query = None"
  shows "parse_user_query env query = Inl (findall_type_error ''list'')"
  unfolding parse_user_query_def try_patterns_no_match [OF assms]
  by (simp add: initial_state_def)

text \<open>
  The fifth pattern has no \<^verbatim>\<open>attendees\<close> group: when it is the one that matches, the
  flag is set and \<^verbatim>\<open>re.findall\<close> raises on the initial \<^verbatim>\<open>[]\<close>.
\<close>

lemma parse_user_query_no_attendees_group:
  assumes "first_match env query [0, 1, 2, 3, 4] = Some gd" and "gd ''attendees'' = None"
  shows "parse_user_query env query = Inl (findall_type_error ''list'')"
  unfolding parse_user_query_def try_patterns_first_match assms(1)
  by (simp add: initial_state_def update_state_def assms(2))

lemma parse_user_query_attendees:
  assumes "first_match env query [0, 1, 2, 3, 4] = Some gd"
    and "gd ''attendees'' = Some (Some raw)"
  shows "\<exists>parsed. parse_user_query env query = Inr parsed
           \<and> in_attendees parsed = resolve raw
           \<and> in_is_first parsed = contains_str ''first'' (lower query)"
  unfolding parse_user_query_def try_patterns_first_match assms(1)
  by (simp add: initial_state_def update_state_def assms(2))

lemma sample_the_first:
  "re_match sample_env 4 ''reschedule the first meeting tomorrow to 5pm'' \<noteq> None"
  "parse_user_query sample_env ''reschedule the first meeting tomorrow to 5pm''
     = Inl (findall_type_error ''list'')"
  by code_simp+

section \<open>Properties of the free-slot tools\<close>











text \<open>
  The earliest-gap property needs busy intervals that are not empty: the sweep takes
  the start of every interval for the end of a gap. With a single event from 0:30 to
  0:30 the first slot starts at 0:30, although the hour from 0:00 overlaps no busy
  interval.
\<close>

lemma empty_interval_splits_gap:
  "report_first (free_slots (minutes 60) 0 (days 7) [(minutes 30, minutes 30)])
     = Suggested (minutes 30) (days 7)
   \<and> qualifying (minutes 60) 0 (days 7) [(minutes 30, minutes 30)] (0, hours 1)"
  by code_simp

section \<open>Properties of the matcher and of the actions\<close>

lemma list_all_lower_subset:
  "list_all (\<lambda>a. lower a \<in> S) attendees = (lower ` set attendees \<subseteq> S)"
  by (auto simp: list_all_iff)

lemma match_events_step:
  "match_events attendees summary (event # events) =
     (if attendees_and_summary_match attendees summary event
         \<or> summary_names_attendee attendees event
      then Some event else match_events attendees summary events)"
proof -
  have 1: "(list_all (\<lambda>a. lower a \<in> set (map (\<lambda>a. lower (email_or_empty a)) (ev_attendees event)))
              attendees
            \<and> (case summary of None \<Rightarrow> True | Some s \<Rightarrow> lower (summary_or event []) = lower s))
          = attendees_and_summary_match attendees summary event"
    unfolding attendees_and_summary_match_def list_all_lower_subset by simp
  have 2: "list_ex (\<lambda>a. contains_str (lower a) (lower (summary_or event []))) attendees
          = summary_names_attendee attendees event"
    unfolding summary_names_attendee_def by (simp add: list_ex_iff)
  show ?thesis
    unfolding match_events.simps Let_def 1 2 by simp
qed

lemma pytz_undefined:
  "lookup_global ''pytz'' = Inl (NameError, ''name '' @ apostrophe @ ''pytz'' @ apostrophe @ '' is not defined'')"
  by (simp add: lookup_global_def module_globals_def)

lemma cancel_by_attendees_aborts:
  "cancel_by_attendees env query attendees
     = raises (NameError, ''name '' @ apostrophe @ ''pytz'' @ apostrophe @ '' is not defined'')"
  unfolding cancel_by_attendees_def pytz_undefined by simp

lemma starts_with_append: "starts_with p (p @ s)"
  by (simp add: starts_with_def)

lemma dt_add_Inr: "dt_add w delta = Inr w' \<Longrightarrow> w' = w + delta"
  by (simp add: dt_add_def split: if_splits)

lemma create_meeting_try_writes:
  assumes "w \<in> set (snd (create_meeting_try env query))"
  shows "snd (create_meeting_try env query) = [w]
       \<and> (\<exists>summary start attendees.
             w = Insert ''user1'' \<lparr>ne_summary = summary, ne_start = utc start,
                                  ne_end = utc (start + hours 1), ne_attendees = attendees\<rparr>)"
  using assms unfolding create_meeting_try_def raises_def returns_def Let_def
  by (auto split: sum.splits option.splits if_splits dest: dt_add_Inr)

lemma update_and_confirm_writes:
  "snd (update_and_confirm env user_id event_id body listed) = []
   \<or> snd (update_and_confirm env user_id event_id body listed) = [Update user_id event_id body]"
  unfolding update_and_confirm_def returns_def
  by (simp split: sum.splits)

lemma reschedule_by_id_shape:
  "snd (reschedule_by_id env event_id new_start new_end) = []
   \<or> (\<exists>event. reschedule_by_id env event_id new_start new_end
         = update_and_confirm env ''user1'' event_id (with_new_times event new_start new_end)
             (Some (with_new_times event new_start new_end)))"
  unfolding reschedule_by_id_def raises_def returns_def
  by (simp split: sum.split option.split) blast

lemma reschedule_by_search_shape:
  "snd (reschedule_by_search env parsed end_time new_start new_end) = []
   \<or> (\<exists>user_id target. reschedule_by_search env parsed end_time new_start new_end
         = update_and_confirm env user_id (ev_id target)
             (with_new_times target new_start new_end) None)"
proof (cases "search_window env (in_old_time parsed) end_time")
  case (Inl x)
  then show ?thesis by (simp add: reschedule_by_search_def raises_def del: collect_events.simps)
next
  case (Inr window)
  obtain time_min time_max where w: "window = (time_min, time_max)" by (cases window)
  show ?thesis
  proof (cases "collect_events env time_min time_max [''user1'', ''user2'']")
    case (Inl x)
    then show ?thesis by (simp add: reschedule_by_search_def Inr w raises_def del: collect_events.simps)
  next
    case events: (Inr events)
    show ?thesis
    proof (cases "pick_target env parsed events")
      case (Raise x)
      then show ?thesis by (simp add: reschedule_by_search_def Inr w events raises_def del: collect_events.simps)
    next
      case (Return msg)
      then show ?thesis by (simp add: reschedule_by_search_def Inr w events returns_def del: collect_events.simps)
    next
      case (Go target)
      show ?thesis
      proof (cases target)
        case None
        then show ?thesis by (simp add: reschedule_by_search_def Inr w events Go returns_def del: collect_events.simps)
      next
        case (Some target_event)
        show ?thesis
        proof (cases "ev_user_id target_event")
          case None
          then show ?thesis
            by (simp add: reschedule_by_search_def Inr w events Go Some raises_def del: collect_events.simps)
        next
          case user: (Some user_id)
          show ?thesis
          proof (cases "get_service env user_id")
            case None
            have "reschedule_by_search env parsed end_time new_start new_end
                = update_and_confirm env user_id (ev_id target_event)
                    (with_new_times target_event new_start new_end) None"
              by (simp add: reschedule_by_search_def Inr w events Go Some user None del: collect_events.simps)
            then show ?thesis by blast
          next
            case (Some x)
            then show ?thesis
              by (simp add: reschedule_by_search_def Inr w events Go \<open>target = Some target_event\<close>
                  user raises_def del: collect_events.simps)
          qed
        qed
      qed
    qed
  qed
qed

lemma parse_new_time_Go:
  "parse_new_time env time_str = Go (new_start, new_end) \<Longrightarrow> new_end = new_start + hours 1"
  unfolding parse_new_time_def
  by (auto split: sum.splits if_splits dest: dt_add_Inr)

lemma reschedule_meeting_try_shape:
  "snd (reschedule_meeting_try env query) = []
   \<or> (\<exists>user_id event_id body listed new_start ev.
         reschedule_meeting_try env query = update_and_confirm env user_id event_id body listed
         \<and> body = with_new_times ev new_start (new_start + hours 1))"
proof (cases "parse_user_query env query")
  case (Inl x)
  then show ?thesis by (simp add: reschedule_meeting_try_def raises_def)
next
  case parsed: (Inr parsed)
  show ?thesis
  proof (cases "new_time_text env query (in_time parsed)")
    case (Raise x)
    then show ?thesis by (simp add: reschedule_meeting_try_def parsed raises_def)
  next
    case (Return msg)
    then show ?thesis by (simp add: reschedule_meeting_try_def parsed returns_def)
  next
    case time: (Go time_str)
    show ?thesis
    proof (cases "dt_add (now env) (days 7)")
      case (Inl x)
      then show ?thesis by (simp add: reschedule_meeting_try_def parsed time raises_def)
    next
      case window: (Inr end_time)
      show ?thesis
      proof (cases "parse_new_time env time_str")
        case (Raise x)
        then show ?thesis by (simp add: reschedule_meeting_try_def parsed time window raises_def)
      next
        case (Return msg)
        then show ?thesis
          by (simp add: reschedule_meeting_try_def parsed time window returns_def)
      next
        case (Go times)
        obtain new_start new_end where t: "times = (new_start, new_end)" by (cases times)
        have e: "new_end = new_start + hours 1"
          using Go unfolding t by (rule parse_new_time_Go)
        show ?thesis
        proof (cases "re_search env Reschedule_id query")
          case None
          have eq: "reschedule_meeting_try env query
              = reschedule_by_search env parsed end_time new_start (new_start + hours 1)"
            by (simp add: reschedule_meeting_try_def parsed time window Go t e None)
          from reschedule_by_search_shape
            [of env parsed end_time new_start "new_start + hours 1"]
          show ?thesis unfolding eq by blast
        next
          case (Some event_id)
          have eq: "reschedule_meeting_try env query
              = reschedule_by_id env event_id new_start (new_start + hours 1)"
            by (simp add: reschedule_meeting_try_def parsed time window Go t e Some)
          from reschedule_by_id_shape [of env event_id new_start "new_start + hours 1"]
          show ?thesis unfolding eq by blast
        qed
      qed
    qed
  qed
qed

lemma snd_create_meeting: "snd (create_meeting env query) = snd (create_meeting_try env query)"
  unfolding create_meeting_def by (simp split: prod.splits sum.splits)

lemma snd_reschedule_meeting:
  "snd (reschedule_meeting env query) = snd (reschedule_meeting_try env query)"
  unfolding reschedule_meeting_def by (simp split: prod.splits sum.splits)

lemma snd_cancel_meeting: "snd (cancel_meeting env query) = snd (cancel_meeting_try env query)"
  unfolding cancel_meeting_def by (simp split: prod.splits sum.splits)

lemma one_hour_with_new_times:
  "one_hour_event (Update user_id event_id (with_new_times ev new_start (new_start + hours 1)))"
  by (simp add: with_new_times_def utc_def)

lemma office_create:
  "snd (create_meeting office_env ''create a meeting with akash at 3pm'')
     = [Insert ''user1''
          \<lparr>ne_summary = ''Meeting'', ne_start = utc (new_year + hours 15),
           ne_end = utc (new_year + hours 16),
           ne_attendees = [''akashmehta556@gmail.com'']\<rparr>]"
  by code_simp

lemma office_reschedule:
  "snd (reschedule_meeting office_env ''reschedule meeting with akash to 5pm'')
     = [Update ''user1'' ''evt1''
          (akash_meeting\<lparr>ev_start := Some (utc (new_year + days 1 + hours 17)),
             ev_end := Some (utc (new_year + days 1 + hours 18)),
             ev_user_id := Some ''user1''\<rparr>)]"
  by code_simp

lemma akash_meeting_duration:
  "ev_start akash_meeting = Some (utc (new_year + hours 10))
   \<and> ev_end akash_meeting = Some (utc (new_year + hours 10 + minutes 90))"
  by code_simp

lemma update_and_confirm_le1:
  "length (snd (update_and_confirm env user_id event_id body listed)) \<le> 1"
  using update_and_confirm_writes [of env user_id event_id body listed] by auto

section \<open>The claims\<close>

subsection \<open>C1: free slots and busy intervals against the window\<close>

text \<open>
  C1 as it is stated does not hold. The claim says that, for a busy list sorted by start,
  pairwise non-overlapping and inside the window, the free slots together with the busy
  intervals span the window exactly. A gap shorter than the minimum duration is skipped
  by the sweep, so its instants are in no busy interval and in no free slot: with one
  meeting from 0:30 to 2:00 in a seven-day window that starts at 0 and a minimum of
  60 minutes, the only free slot runs from 2:00 to the end of the window, and the
  instant 0 of the window is in neither.
\<close>

theorem free_slots_union_counterexample:
  "sorted (map fst [(minutes 30, hours 2)])
   \<and> pairwise_disjoint [(minutes 30, hours 2)]
   \<and> within_window 0 (days 7) [(minutes 30, hours 2)]
   \<and> free_slots (minutes 60) 0 (days 7) [(minutes 30, hours 2)] = [(hours 2, days 7)]
   \<and> (0::int) < days 7
   \<and> \<not> covered [(minutes 30, hours 2)] 0
   \<and> \<not> covered (free_slots (minutes 60) 0 (days 7) [(minutes 30, hours 2)]) 0"
  by (simp add: free_slots_def sweep_free_def within_window_def covered_def
      minutes_def hours_def days_def seconds_def us_per_second_def)

text \<open>
  C1, amended: for every minimum duration of \<open>duration_minutes\<close> minutes that is below
  \<open>2^34\<close> seconds in absolute value (about 544 years; the default is 60 minutes), and
  for every busy list sorted by start, pairwise non-overlapping and inside the window,
  every free slot returned by the sweep lasts at least the minimum duration and lies
  inside the window, and every instant of the window is in a busy interval, in a
  returned free slot, or in a gap shorter than the minimum duration (between the window
  start or the end of a busy interval and the window end or the start of a busy
  interval). The bound on the duration is the range on which the float comparison of
  the code is the exact one; from \<open>2^34\<close> seconds on the code also returns slots that
  are one microsecond short.
\<close>

theorem free_slots_account_for_window:
  assumes "sorted (map fst busy)" and "pairwise_disjoint busy"
    and "within_window window_start window_end busy"
    and "\<bar>duration_minutes * 60\<bar> < 2 ^ 34"
    and "d = seconds (duration_minutes * 60)"
  shows "(\<forall>(a, b) \<in> set (free_slots d window_start window_end busy).
            d \<le> b - a \<and> window_start \<le> a \<and> b \<le> window_end)
         \<and> (\<forall>t. window_start \<le> t \<and> t < window_end \<longrightarrow>
               covered busy t \<or> covered (free_slots d window_start window_end busy) t
               \<or> in_short_gap d window_start window_end busy t)"
proof (intro conjI ballI allI impI)
  fix f assume f: "f \<in> set (free_slots d window_start window_end busy)"
  obtain a b where ab: "f = (a, b)" by (cases f)
  have mem: "(a, b) \<in> set (sweep_free d window_start window_end (sort busy))"
    using f by (simp add: ab free_slots_def)
  have "\<forall>(s, e) \<in> set (sort busy). s \<le> window_end"
    using assms(3) by (auto simp: within_window_def)
  from sweep_free_in_window [OF this mem] sweep_free_slots_long [OF mem]
  show "case f of (a, b) \<Rightarrow> d \<le> b - a \<and> window_start \<le> a \<and> b \<le> window_end"
    by (simp add: ab)
next
  fix t assume "window_start \<le> t \<and> t < window_end"
  then have "covered (sort busy) t
      \<or> covered (sweep_free d window_start window_end (sort busy)) t
      \<or> in_short_gap d window_start window_end (sort busy) t"
    by (intro sweep_free_accounts) simp_all
  then show "covered busy t \<or> covered (free_slots d window_start window_end busy) t
      \<or> in_short_gap d window_start window_end busy t"
    by (simp add: covered_sort in_short_gap_sort free_slots_def)
qed

theorem free_slots_account_for_window_witness:
  "sorted (map fst [(minutes 30, hours 2)])
   \<and> pairwise_disjoint [(minutes 30, hours 2)]
   \<and> within_window 0 (days 7) [(minutes 30, hours 2)]
   \<and> \<bar>(60::int) * 60\<bar> < 2 ^ 34
   \<and> minutes 60 = seconds (60 * 60)
   \<and> (hours 2, days 7) \<in> set (free_slots (minutes 60) 0 (days 7) [(minutes 30, hours 2)])
   \<and> minutes 60 \<le> days 7 - hours 2 \<and> 0 \<le> hours 2 \<and> days 7 \<le> days 7
   \<and> (covered [(minutes 30, hours 2)] (minutes 10)
       \<or> covered (free_slots (minutes 60) 0 (days 7) [(minutes 30, hours 2)]) (minutes 10)
       \<or> in_short_gap (minutes 60) 0 (days 7) [(minutes 30, hours 2)] (minutes 10))"
proof -
  have 1: "sorted (map fst [(minutes 30, hours 2)])" by simp
  have 2: "pairwise_disjoint [(minutes 30, hours 2)]" by simp
  have 3: "within_window 0 (days 7) [(minutes 30, hours 2)]"
    by (simp add: within_window_def minutes_def hours_def days_def seconds_def us_per_second_def)
  have 4: "(hours 2, days 7) \<in> set (free_slots (minutes 60) 0 (days 7) [(minutes 30, hours 2)])"
    by (simp add: free_slots_def sweep_free_def minutes_def hours_def days_def seconds_def
        us_per_second_def)
  have 5: "(0::int) \<le> minutes 10 \<and> minutes 10 < days 7"
    by (simp add: minutes_def days_def seconds_def us_per_second_def)
  have 6: "\<bar>(60::int) * 60\<bar> < 2 ^ 34" by simp
  have 7: "minutes 60 = seconds (60 * 60)" by (simp add: minutes_def)
  note inst = free_slots_account_for_window [OF 1 2 3 6 7]
  from inst 4 have "minutes 60 \<le> days 7 - hours 2 \<and> 0 \<le> hours 2 \<and> days 7 \<le> days 7"
    by blast
  moreover from inst 5 have "covered [(minutes 30, hours 2)] (minutes 10)
       \<or> covered (free_slots (minutes 60) 0 (days 7) [(minutes 30, hours 2)]) (minutes 10)
       \<or> in_short_gap (minutes 60) 0 (days 7) [(minutes 30, hours 2)] (minutes 10)"
    by blast
  ultimately show ?thesis using 1 2 3 4 6 7 by blast
qed

subsection \<open>C3: the pointer never moves back, free slots avoid busy intervals\<close>

text \<open>
  C3: for every busy list sorted by start, overlapping and nested intervals included,
  the pointer values the sweep passes through are non-decreasing, and no free slot the
  sweep emits (the trailing slot included) overlaps a busy interval.
\<close>

theorem sweep_pointer_monotone_no_overlap:
  assumes "sorted (map fst busy)"
  shows "sorted (map fst (sweep_states d (window_start, []) busy))
         \<and> (\<forall>f \<in> set (sweep_free d window_start window_end busy).
               \<forall>b \<in> set busy. \<not> overlaps f b)"
  using assms sweep_states_sorted sweep_free_no_overlap by blast

theorem sweep_pointer_monotone_no_overlap_witness:
  "sorted (map fst [(hours 2, hours 5), (hours 3, hours 4), (hours 4, hours 9)])
   \<and> sorted (map fst (sweep_states (hours 1) (0, [])
        [(hours 2, hours 5), (hours 3, hours 4), (hours 4, hours 9)]))
   \<and> sweep_free (hours 1) 0 (days 7)
        [(hours 2, hours 5), (hours 3, hours 4), (hours 4, hours 9)]
       = [(0, hours 2), (hours 9, days 7)]
   \<and> \<not> overlaps (0, hours 2) (hours 2, hours 5)
   \<and> \<not> overlaps (hours 9, days 7) (hours 4, hours 9)"
proof -
  let ?busy = "[(hours 2, hours 5), (hours 3, hours 4), (hours 4, hours 9)]"
  have 1: "sorted (map fst ?busy)"
    by (simp add: hours_def seconds_def us_per_second_def)
  have 2: "sweep_free (hours 1) 0 (days 7) ?busy = [(0, hours 2), (hours 9, days 7)]"
    by (simp add: sweep_free_def hours_def days_def seconds_def us_per_second_def)
  note inst = sweep_pointer_monotone_no_overlap [OF 1, of "hours 1" 0 "days 7"]
  from inst have "sorted (map fst (sweep_states (hours 1) (0, []) ?busy))" by blast
  moreover from inst have "\<not> overlaps (0, hours 2) (hours 2, hours 5)"
    unfolding 2 by simp
  moreover from inst have "\<not> overlaps (hours 9, days 7) (hours 4, hours 9)"
    unfolding 2 by simp
  ultimately show ?thesis using 1 2 by blast
qed

subsection \<open>C10: the tools report the earliest qualifying gap\<close>




subsection \<open>C5: names and addresses in one attendee text\<close>

text \<open>
  C5 as it is stated does not hold. The claim says that resolving
  \<^verbatim>\<open>Akash and eliana@x.com\<close> yields two attendees, the table address of Akash and
  \<^verbatim>\<open>eliana@x.com\<close>. The resolver looks names up only when the text holds no address
  at all (the \<^verbatim>\<open>if found_emails: ... else: ...\<close> of the source), so the result has one
  attendee and Akash's address is not in it.
\<close>

theorem resolve_mixed_counterexample:
  "length (resolve ''Akash and eliana@x.com'') \<noteq> 2
   \<and> ''akashmehta556@gmail.com'' \<notin> set (resolve ''Akash and eliana@x.com'')"
  by code_simp

text \<open>
  C5, amended: resolving \<^verbatim>\<open>Akash and eliana@x.com\<close> yields exactly one attendee, the
  address \<^verbatim>\<open>eliana@x.com\<close> taken verbatim by the email branch; the name Akash is
  mapped through the static table only when the text holds no address, as in
  \<^verbatim>\<open>Akash and eliana\<close>.
\<close>

theorem resolve_mixed_email_only:
  "resolve ''Akash and eliana@x.com'' = [''eliana@x.com'']
   \<and> resolve ''Akash and eliana'' = [''akashmehta556@gmail.com'', ''eliana@gocadre.ai'']"
  by code_simp

subsection \<open>C6: the word \<^verbatim>\<open>first\<close> and the \<^verbatim>\<open>is_first\<close> flag\<close>

text \<open>
  C6 as it is stated does not hold. The claim covers queries that no pattern matches.
  The test for \<^verbatim>\<open>first\<close> sits inside \<^verbatim>\<open>if match:\<close>, so without a match the flag keeps
  its initial value \<open>False\<close>: on the query \<^verbatim>\<open>first\<close>, which none of the five patterns
  matches, the flag is not set, and what comes back is not an intent with the flag but
  a \<^verbatim>\<open>TypeError\<close> (the attendee entry is still the empty list when it reaches
  \<^verbatim>\<open>re.findall\<close>).
\<close>

theorem first_without_match_counterexample:
  "contains_str ''first'' (lower ''first'')
   \<and> re_match base_env 0 ''first'' = None
   \<and> re_match base_env 1 ''first'' = None
   \<and> re_match base_env 2 ''first'' = None
   \<and> re_match base_env 3 ''first'' = None
   \<and> re_match base_env 4 ''first'' = None
   \<and> \<not> ps_is_first (try_patterns base_env ''first'' [0, 1, 2, 3, 4] initial_state)
   \<and> map_sum fst in_is_first (parse_user_query base_env ''first'') = Inl TypeError"
  by code_simp

text \<open>
  C6, amended: for every query whose lowered text contains \<^verbatim>\<open>first\<close>: if at least one
  of the five patterns matches it, whichever it is, the \<^verbatim>\<open>is_first\<close> entry of the
  result is set to true, every intent that \<^verbatim>\<open>parse_user_query\<close> returns has \<^verbatim>\<open>is_first\<close>
  true, and an intent is returned whenever the pattern that matched captured an
  attendee text; if no pattern matches it, the entry stays false and no intent with
  the flag is returned.
\<close>

theorem first_forces_is_first:
  assumes "contains_str ''first'' (lower query)"
  shows "((\<exists>i \<in> set [0, 1, 2, 3, 4]. re_match env i query \<noteq> None) \<longrightarrow>
            ps_is_first (try_patterns env query [0, 1, 2, 3, 4] initial_state)
            \<and> (\<forall>parsed. parse_user_query env query = Inr parsed \<longrightarrow> in_is_first parsed)
            \<and> (\<forall>gd raw. first_match env query [0, 1, 2, 3, 4] = Some gd
                   \<and> gd ''attendees'' = Some (Some raw) \<longrightarrow>
                  (\<exists>parsed. parse_user_query env query = Inr parsed \<and> in_is_first parsed)))
       \<and> ((\<forall>i \<in> set [0, 1, 2, 3, 4]. re_match env i query = None) \<longrightarrow>
            \<not> ps_is_first (try_patterns env query [0, 1, 2, 3, 4] initial_state)
            \<and> (\<forall>parsed. parse_user_query env query \<noteq> Inr parsed))"
proof (intro conjI impI allI)
  assume m: "\<exists>i \<in> set [0, 1, 2, 3, 4]. re_match env i query \<noteq> None"
  show flag: "ps_is_first (try_patterns env query [0, 1, 2, 3, 4] initial_state)"
    using assms m by (rule try_patterns_is_first)
  show "in_is_first parsed" if "parse_user_query env query = Inr parsed" for parsed
    using that flag
    by (auto simp: parse_user_query_def Let_def split: raw_attendees.splits option.splits)
  show "\<exists>parsed. parse_user_query env query = Inr parsed \<and> in_is_first parsed"
    if "first_match env query [0, 1, 2, 3, 4] = Some gd \<and> gd ''attendees'' = Some (Some raw)"
    for gd raw
    using parse_user_query_attendees [of env query gd raw] that assms by auto
next
  assume n: "\<forall>i \<in> set [0, 1, 2, 3, 4]. re_match env i query = None"
  show "\<not> ps_is_first (try_patterns env query [0, 1, 2, 3, 4] initial_state)"
    unfolding try_patterns_no_match [OF n] by (simp add: initial_state_def)
  show "parse_user_query env query \<noteq> Inr parsed" for parsed
    unfolding parse_user_query_no_match [OF n] by simp
qed

theorem first_forces_is_first_witness:
  "contains_str ''first'' (lower ''reschedule first meeting with akash tomorrow to 5pm'')
   \<and> re_match sample_env 1 ''reschedule first meeting with akash tomorrow to 5pm'' \<noteq> None
   \<and> ps_is_first (try_patterns sample_env
         ''reschedule first meeting with akash tomorrow to 5pm'' [0, 1, 2, 3, 4] initial_state)
   \<and> parse_user_query sample_env ''reschedule first meeting with akash tomorrow to 5pm''
       = Inr \<lparr>in_summary = ''Meeting'', in_time = Some ''5pm'', in_old_time = Some ''tomorrow'',
              in_attendees = [''akashmehta556@gmail.com''], in_is_first = True\<rparr>
   \<and> contains_str ''first'' (lower ''reschedule the first meeting tomorrow to 5pm'')
   \<and> re_match sample_env 4 ''reschedule the first meeting tomorrow to 5pm'' \<noteq> None
   \<and> ps_is_first (try_patterns sample_env
         ''reschedule the first meeting tomorrow to 5pm'' [0, 1, 2, 3, 4] initial_state)
   \<and> contains_str ''first'' (lower ''first'')
   \<and> re_match sample_env 0 ''first'' = None
   \<and> re_match sample_env 1 ''first'' = None
   \<and> re_match sample_env 2 ''first'' = None
   \<and> re_match sample_env 3 ''first'' = None
   \<and> re_match sample_env 4 ''first'' = None
   \<and> \<not> ps_is_first (try_patterns sample_env ''first'' [0, 1, 2, 3, 4] initial_state)
   \<and> isl (parse_user_query sample_env ''first'')"
proof -
  let ?q = "''reschedule first meeting with akash tomorrow to 5pm''"
  let ?r = "''reschedule the first meeting tomorrow to 5pm''"
  have q: "contains_str ''first'' (lower ?q)" by code_simp
  have q1: "re_match sample_env 1 ?q \<noteq> None" by code_simp
  then have qm: "\<exists>i \<in> set [0, 1, 2, 3, 4]. re_match sample_env i ?q \<noteq> None" by simp
  from first_forces_is_first [OF q, of sample_env] qm
  have qf: "ps_is_first (try_patterns sample_env ?q [0, 1, 2, 3, 4] initial_state)"
    and qi: "\<forall>parsed. parse_user_query sample_env ?q = Inr parsed \<longrightarrow> in_is_first parsed"
    by blast+
  have r: "contains_str ''first'' (lower ?r)" by code_simp
  have r4: "re_match sample_env 4 ?r \<noteq> None" by (rule sample_the_first(1))
  then have rm: "\<exists>i \<in> set [0, 1, 2, 3, 4]. re_match sample_env i ?r \<noteq> None" by simp
  from first_forces_is_first [OF r, of sample_env] rm
  have rf: "ps_is_first (try_patterns sample_env ?r [0, 1, 2, 3, 4] initial_state)" by blast
  have f: "contains_str ''first'' (lower ''first'')" by code_simp
  have f0: "re_match sample_env 0 ''first'' = None" "re_match sample_env 1 ''first'' = None"
    "re_match sample_env 2 ''first'' = None" "re_match sample_env 3 ''first'' = None"
    "re_match sample_env 4 ''first'' = None"
    by code_simp+
  then have fm: "\<forall>i \<in> set [0, 1, 2, 3, 4]. re_match sample_env i ''first'' = None" by simp
  from first_forces_is_first [OF f, of sample_env] fm
  have ff: "\<not> ps_is_first (try_patterns sample_env ''first'' [0, 1, 2, 3, 4] initial_state)"
    and fn: "\<forall>parsed. parse_user_query sample_env ''first'' \<noteq> Inr parsed"
    by blast+
  from fn have fi: "isl (parse_user_query sample_env ''first'')"
    by (cases "parse_user_query sample_env ''first''") simp_all
  from q q1 qf sample_first r r4 rf f f0 ff fi show ?thesis by blast
qed

subsection \<open>C2: which event the reschedule matcher picks\<close>

text \<open>
  C2 as it is stated does not hold. The claim says that the summary fallback is used
  only if no event of the whole list has the attendees (and the summary) of the intent.
  The loop applies both tests to each event before it looks at the next one, so an
  earlier event that only passes the fallback wins over a later event that passes the
  attendee test: with a note titled \<^verbatim>\<open>Reply to a@x.com\<close> at 9:00 and a meeting attended
  by \<^verbatim>\<open>A@x.com\<close> at 13:00, the intent for \<^verbatim>\<open>a@x.com\<close> gets the note.
\<close>

theorem match_events_fallback_counterexample:
  "attendees_and_summary_match [''a@x.com''] (Some ''Meeting'') call_event
   \<and> \<not> attendees_and_summary_match [''a@x.com''] (Some ''Meeting'') note_event
   \<and> match_events [''a@x.com''] (Some ''Meeting'') [note_event, call_event] = Some note_event
   \<and> note_event \<noteq> call_event"
  by code_simp

text \<open>
  C2, amended: for every event list in scan order and every intent, the matcher returns
  the first event that satisfies either criterion: its attendee addresses, lowered,
  include those of the intent and its summary equals the intent's summary without
  regard to case when the intent has one, or its summary contains a lowered attendee
  address of the intent as a substring. It returns nothing exactly when no event
  satisfies either; of two events that qualify, the earlier in the list is returned.
\<close>

theorem match_events_first_of_either:
  "match_events attendees summary events =
     find (\<lambda>event. attendees_and_summary_match attendees summary event
                    \<or> summary_names_attendee attendees event) events"
proof (induction events)
  case Nil
  show ?case by simp
next
  case (Cons event events)
  show ?case unfolding match_events_step using Cons.IH by simp
qed

theorem match_events_first_of_either_witness:
  "match_events [''a@x.com''] (Some ''Meeting'') [call_event, note_event] = Some call_event
   \<and> find (\<lambda>event. attendees_and_summary_match [''a@x.com''] (Some ''Meeting'') event
                      \<or> summary_names_attendee [''a@x.com''] event)
         [call_event, note_event] = Some call_event"
proof -
  have "match_events [''a@x.com''] (Some ''Meeting'') [call_event, note_event] = Some call_event"
    by code_simp
  with match_events_first_of_either [of "[''a@x.com'']" "Some ''Meeting''" "[call_event, note_event]"]
  show ?thesis by simp
qed

subsection \<open>C9: cancelling without an event id\<close>

text \<open>
  C9: for every query in which the search for \<^verbatim>\<open>cancel event <id>\<close> finds nothing,
  \<^verbatim>\<open>cancel_meeting\<close> applies no delete and returns a text that begins with
  \<^verbatim>\<open>Failed to cancel event: \<close>; the attendee path, whatever the query and the attendees,
  stops at the undefined name \<^verbatim>\<open>pytz\<close> before any calendar is listed.
\<close>

theorem cancel_without_id_never_deletes:
  assumes "re_search env Cancel_event_id query = None"
  shows "snd (cancel_meeting env query) = []
       \<and> starts_with ''Failed to cancel event: '' (fst (cancel_meeting env query))
       \<and> (\<forall>attendees. cancel_by_attendees env query attendees
             = raises (NameError, ''name '' @ apostrophe @ ''pytz'' @ apostrophe @ '' is not defined''))"
proof -
  have "cancel_meeting_try env query
          = (case parse_user_query env query of
               Inl x \<Rightarrow> raises x
             | Inr parsed \<Rightarrow>
                 if in_attendees parsed = []
                 then returns ''Failed to cancel event: no attendees or event ID in your request.''
                 else raises (NameError, ''name '' @ apostrophe @ ''pytz'' @ apostrophe @ '' is not defined''))"
    unfolding cancel_meeting_try_def assms cancel_by_attendees_aborts by simp
  then have "snd (cancel_meeting env query) = []
       \<and> starts_with ''Failed to cancel event: '' (fst (cancel_meeting env query))"
    unfolding cancel_meeting_def
    by (simp add: raises_def returns_def starts_with_def split: sum.splits)
  with cancel_by_attendees_aborts show ?thesis by blast
qed

theorem cancel_without_id_never_deletes_witness:
  "re_search office_env Cancel_event_id ''cancel meeting with akash'' = None
   \<and> cancel_meeting office_env ''cancel meeting with akash''
       = (''Failed to cancel event: name '' @ apostrophe @ ''pytz'' @ apostrophe @ '' is not defined'', [])
   \<and> snd (cancel_meeting office_env ''cancel meeting with akash'') = []
   \<and> starts_with ''Failed to cancel event: ''
        (fst (cancel_meeting office_env ''cancel meeting with akash''))"
proof -
  have 1: "re_search office_env Cancel_event_id ''cancel meeting with akash'' = None"
    by (simp add: office_env_def base_env_def)
  have 2: "cancel_meeting office_env ''cancel meeting with akash''
       = (''Failed to cancel event: name '' @ apostrophe @ ''pytz'' @ apostrophe @ '' is not defined'', [])"
    by code_simp
  from cancel_without_id_never_deletes [OF 1] 1 2 show ?thesis by blast
qed

subsection \<open>C8: written events last one hour\<close>

text \<open>
  C8: every write that \<^verbatim>\<open>create_meeting\<close> or \<^verbatim>\<open>reschedule_meeting\<close> applies sends an event
  that ends exactly one hour after it starts, whatever the query and the calendars; a
  rescheduled event gets the new one-hour span in place of its own duration.
\<close>

theorem written_events_last_one_hour:
  "(\<forall>w \<in> set (snd (create_meeting env query)). one_hour_event w)
   \<and> (\<forall>w \<in> set (snd (reschedule_meeting env query')). one_hour_event w)"
proof (intro conjI ballI)
  fix w assume "w \<in> set (snd (create_meeting env query))"
  then have "w \<in> set (snd (create_meeting_try env query))" by (simp add: snd_create_meeting)
  from create_meeting_try_writes [OF this] show "one_hour_event w"
    by (auto simp: utc_def)
next
  fix w assume w: "w \<in> set (snd (reschedule_meeting env query'))"
  then have w': "w \<in> set (snd (reschedule_meeting_try env query'))"
    by (simp add: snd_reschedule_meeting)
  then have "snd (reschedule_meeting_try env query') \<noteq> []" by auto
  with reschedule_meeting_try_shape [of env query']
  obtain user_id event_id listed new_start ev where
    eq: "reschedule_meeting_try env query'
           = update_and_confirm env user_id event_id
               (with_new_times ev new_start (new_start + hours 1)) listed"
    by blast
  from update_and_confirm_writes [of env user_id event_id
      "with_new_times ev new_start (new_start + hours 1)" listed] w'
  have "w = Update user_id event_id (with_new_times ev new_start (new_start + hours 1))"
    unfolding eq by auto
  then show "one_hour_event w" by (simp only: one_hour_with_new_times)
qed

theorem written_events_last_one_hour_witness:
  "snd (create_meeting office_env ''create a meeting with akash at 3pm'')
     = [Insert ''user1''
          \<lparr>ne_summary = ''Meeting'', ne_start = utc (new_year + hours 15),
           ne_end = utc (new_year + hours 16),
           ne_attendees = [''akashmehta556@gmail.com'']\<rparr>]
   \<and> one_hour_event
        (Insert ''user1''
          \<lparr>ne_summary = ''Meeting'', ne_start = utc (new_year + hours 15),
           ne_end = utc (new_year + hours 16),
           ne_attendees = [''akashmehta556@gmail.com'']\<rparr>)
   \<and> ev_start akash_meeting = Some (utc (new_year + hours 10))
   \<and> ev_end akash_meeting = Some (utc (new_year + hours 10 + minutes 90))
   \<and> snd (reschedule_meeting office_env ''reschedule meeting with akash to 5pm'')
     = [Update ''user1'' ''evt1''
          (akash_meeting\<lparr>ev_start := Some (utc (new_year + days 1 + hours 17)),
             ev_end := Some (utc (new_year + days 1 + hours 18)),
             ev_user_id := Some ''user1''\<rparr>)]
   \<and> one_hour_event
        (Update ''user1'' ''evt1''
          (akash_meeting\<lparr>ev_start := Some (utc (new_year + days 1 + hours 17)),
             ev_end := Some (utc (new_year + days 1 + hours 18)),
             ev_user_id := Some ''user1''\<rparr>))"
proof -
  note inst = written_events_last_one_hour
    [of office_env "''create a meeting with akash at 3pm''"
      "''reschedule meeting with akash to 5pm''"]
  from inst have 1: "one_hour_event
        (Insert ''user1''
          \<lparr>ne_summary = ''Meeting'', ne_start = utc (new_year + hours 15),
           ne_end = utc (new_year + hours 16),
           ne_attendees = [''akashmehta556@gmail.com'']\<rparr>)"
    unfolding office_create by simp
  from inst have 2: "one_hour_event
        (Update ''user1'' ''evt1''
          (akash_meeting\<lparr>ev_start := Some (utc (new_year + days 1 + hours 17)),
             ev_end := Some (utc (new_year + days 1 + hours 18)),
             ev_user_id := Some ''user1''\<rparr>))"
    unfolding office_reschedule by simp
  from 1 2 office_create office_reschedule akash_meeting_duration show ?thesis by blast
qed

subsection \<open>C7: failures and writes\<close>

text \<open>
  C7 says that an action which fails has written nothing. \<^verbatim>\<open>create_meeting\<close> reads the
  conference link from the answer of the insert with
  \<^verbatim>\<open>.get('entryPoints', [{}])[0]\<close>; when the answer carries an empty list of entry
  points the index raises after the event has been inserted, and the outer handler
  reports a failure. On the query \<^verbatim>\<open>create a meeting with akash at 3pm\<close> the action
  returns \<^verbatim>\<open>Failed to create event: list index out of range\<close> and the calendar of
  user1 holds the new event.
\<close>

theorem create_reports_failure_after_insert:
  "create_meeting no_entry_env ''create a meeting with akash at 3pm''
     = (''Failed to create event: list index out of range'',
        [Insert ''user1''
           \<lparr>ne_summary = ''Meeting'', ne_start = utc (new_year + hours 15),
            ne_end = utc (new_year + hours 16),
            ne_attendees = [''akashmehta556@gmail.com'']\<rparr>])"
  by code_simp

subsection \<open>The actions apply at most one write\<close>

text \<open>
  Whatever the query and the answers of the environment, each of \<^verbatim>\<open>create_meeting\<close>,
  \<^verbatim>\<open>cancel_meeting\<close> and \<^verbatim>\<open>reschedule_meeting\<close> returns its text with at most one write
  applied. (The three are total functions of the environment and the query: every
  exception of the source ends in a handler that returns a text.)
\<close>

theorem actions_apply_at_most_one_write:
  "length (snd (create_meeting env query)) \<le> 1
   \<and> length (snd (cancel_meeting env query)) \<le> 1
   \<and> length (snd (reschedule_meeting env query)) \<le> 1"
proof (intro conjI)
  show "length (snd (create_meeting env query)) \<le> 1"
  proof (cases "snd (create_meeting_try env query)")
    case Nil
    then show ?thesis by (simp add: snd_create_meeting)
  next
    case (Cons w ws)
    then have "w \<in> set (snd (create_meeting_try env query))" by simp
    from create_meeting_try_writes [OF this] show ?thesis by (simp add: snd_create_meeting)
  qed
next
  have "length (snd (cancel_by_id env event_id)) \<le> 1" for event_id
    unfolding cancel_by_id_def raises_def returns_def
    by (simp split: option.split sum.split)
  moreover have "snd (cancel_by_attendees env query attendees) = []" for attendees
    by (simp add: cancel_by_attendees_aborts raises_def)
  ultimately show "length (snd (cancel_meeting env query)) \<le> 1"
    unfolding snd_cancel_meeting cancel_meeting_try_def raises_def returns_def
    by (simp split: option.split sum.split)
next
  from reschedule_meeting_try_shape [of env query] update_and_confirm_le1
  show "length (snd (reschedule_meeting env query)) \<le> 1"
    unfolding snd_reschedule_meeting by auto
qed

subsection \<open>C4: the day-of-week correction\<close>

text \<open>
  C4 as it is stated does not hold. The claim says that the correction preserves the
  time of day. The loop ends with \<^verbatim>\<open>start.replace(hour=start.hour, minute=start.minute,
  second=0, microsecond=0)\<close>, which keeps the hour and the minute and clears the rest:
  the query \<^verbatim>\<open>create a meeting with akash at 3:15:30pm saturday\<close>, parsed on Wednesday
  2025-01-01 as 15:15:30 of that day, is moved to Saturday 15:15:00. (The claim also
  speaks of every query that names a weekday; the loop applies the correction once for
  each weekday named, in the order Monday to Sunday, so a query naming Monday and
  Friday on a Wednesday ends nine days later, on the Friday after the next Monday.)
\<close>

theorem weekday_correction_seconds_counterexample:
  "contains_str ''saturday'' (lower ''create a meeting with akash at 3:15:30pm saturday'')
   \<and> dateparse office_env ''3:15:30pm'' (today office_env)
       = Inr (new_year + hours 15 + minutes 15 + seconds 30)
   \<and> weekday (new_year + hours 15 + minutes 15 + seconds 30) = 2
   \<and> adjust_weekday (lower ''create a meeting with akash at 3:15:30pm saturday'')
         (enumerate 0 day_names) (new_year + hours 15 + minutes 15 + seconds 30)
       = Inr (new_year + days 3 + hours 15 + minutes 15)
   \<and> second_of (new_year + hours 15 + minutes 15 + seconds 30) = 30
   \<and> second_of (new_year + days 3 + hours 15 + minutes 15) = 0"
  by code_simp

text \<open>
  C4, amended: for every create query whose lowered text names exactly one weekday,
  different from the weekday of the parsed start, the start is moved forward by one to
  six days (\<open>(i - weekday + 7) mod 7\<close>, never zero) to the next date that falls on that
  weekday, provided that date is still a date of the \<^verbatim>\<open>datetime\<close> range, which ends
  with the year 9999; the hour and the minute are kept, the seconds and microseconds
  are set to zero. A Friday start with a query naming Saturday goes to the Saturday of
  the next day at the same hour and minute. When the date asked for lies past the year
  9999 (a start in the last six days of it), the addition raises \<^verbatim>\<open>OverflowError\<close> and
  no start is computed.
\<close>

theorem weekday_correction_single_day:
  assumes i: "i < 7"
    and named: "contains_str (day_names ! i) (lower query)"
    and only: "\<forall>j < 7. j \<noteq> i \<longrightarrow> \<not> contains_str (day_names ! j) (lower query)"
    and differs: "weekday start \<noteq> i"
    and valid: "0 \<le> start" "start < max_wall"
  shows "if start + days ((int i - int (weekday start) + 7) mod 7) < max_wall
         then \<exists>adjusted.
           adjust_weekday (lower query) (enumerate 0 day_names) start = Inr adjusted
           \<and> weekday adjusted = i
           \<and> date_of adjusted - date_of start = (int i - int (weekday start) + 7) mod 7
           \<and> 1 \<le> date_of adjusted - date_of start
           \<and> date_of adjusted - date_of start \<le> 6
           \<and> hour_of adjusted = hour_of start
           \<and> minute_of adjusted = minute_of start
           \<and> second_of adjusted = 0
           \<and> microsecond_of adjusted = 0
         else adjust_weekday (lower query) (enumerate 0 day_names) start
                = Inl (OverflowError, ''date value out of range'')"
proof -
  define days_ahead where "days_ahead = (int i - int (weekday start) + 7) mod 7"
  have da: "1 \<le> days_ahead" "days_ahead \<le> 6"
    and wd: "(date_of start + days_ahead) mod 7 = int i"
    using days_ahead_range [OF i differs] unfolding days_ahead_def by simp_all
  have nonneg: "0 \<le> days days_ahead"
    using da by (simp add: days_nonneg)
  have split: "enumerate 0 day_names
      = enumerate 0 (take i day_names) @ (i, day_names ! i)
          # enumerate (Suc i) (drop (Suc i) day_names)"
    using i by (intro enumerate_split) (simp add: day_names_length)
  have pre: "\<forall>(j, day) \<in> set (enumerate 0 (take i day_names)). \<not> contains_str day (lower query)"
  proof (clarify)
    fix j day
    assume m: "(j, day) \<in> set (enumerate 0 (take i day_names))"
      and c: "contains_str day (lower query)"
    from enumerate_set [OF m] i have "j < i" "day = day_names ! j"
      by (simp_all add: day_names_length)
    with only i c show False by simp
  qed
  have post: "\<forall>(j, day) \<in> set (enumerate (Suc i) (drop (Suc i) day_names)).
                \<not> contains_str day (lower query)"
  proof (clarify)
    fix j day
    assume m: "(j, day) \<in> set (enumerate (Suc i) (drop (Suc i) day_names))"
      and c: "contains_str day (lower query)"
    from enumerate_set [OF m] i have "Suc i \<le> j" "j < 7" "day = day_names ! j"
      by (simp_all add: day_names_length)
    with only c show False by simp
  qed
  have nz: "days_ahead \<noteq> 0" using da by simp
  show ?thesis
  proof (cases "start + days days_ahead < max_wall")
    case True
    with valid nonneg have moved: "dt_add start (days days_ahead) = Inr (start + days days_ahead)"
      by (simp add: dt_add_def)
    let ?adjusted = "floor_minute (start + days days_ahead)"
    have run: "adjust_weekday (lower query) (enumerate 0 day_names) start = Inr ?adjusted"
      unfolding split
      using pre post named differs days_ahead_def nz moved
      by (rule adjust_weekday_single)
    have date: "date_of ?adjusted = date_of start + days_ahead"
      by (simp add: date_of_floor_minute date_of_add_days)
    have "weekday ?adjusted = nat (int i)"
      unfolding weekday_def date wd ..
    then have "weekday ?adjusted = i" by simp
    moreover have "hour_of ?adjusted = hour_of start"
      by (simp add: hour_of_floor_minute hour_of_add_days)
    moreover have "minute_of ?adjusted = minute_of start"
      by (simp add: minute_of_floor_minute minute_of_add_days)
    moreover have "second_of ?adjusted = 0" by (rule second_of_floor_minute)
    moreover have "microsecond_of ?adjusted = 0" by (rule microsecond_of_floor_minute)
    ultimately have "\<exists>adjusted.
           adjust_weekday (lower query) (enumerate 0 day_names) start = Inr adjusted
           \<and> weekday adjusted = i
           \<and> date_of adjusted - date_of start = days_ahead
           \<and> 1 \<le> date_of adjusted - date_of start
           \<and> date_of adjusted - date_of start \<le> 6
           \<and> hour_of adjusted = hour_of start
           \<and> minute_of adjusted = minute_of start
           \<and> second_of adjusted = 0
           \<and> microsecond_of adjusted = 0"
      using run date da by auto
    with True show ?thesis unfolding days_ahead_def by simp
  next
    case False
    then have moved: "dt_add start (days days_ahead)
        = Inl (OverflowError, ''date value out of range'')"
      by (simp add: dt_add_def)
    have "adjust_weekday (lower query) (enumerate 0 day_names) start
        = Inl (OverflowError, ''date value out of range'')"
      unfolding split
      using pre named differs days_ahead_def nz moved
      by (rule adjust_weekday_single_overflow)
    with False show ?thesis unfolding days_ahead_def by simp
  qed
qed

theorem weekday_correction_single_day_witness:
  "(5::nat) < 7
   \<and> contains_str (day_names ! 5) (lower ''create a meeting with akash at 3pm saturday'')
   \<and> \<not> contains_str (day_names ! 4) (lower ''create a meeting with akash at 3pm saturday'')
   \<and> weekday (new_year + days 2 + hours 15) = 4
   \<and> 0 \<le> new_year + days 2 + hours 15
   \<and> new_year + days 2 + hours 15 < max_wall
   \<and> new_year + days 2 + hours 15 + days 1 < max_wall
   \<and> adjust_weekday (lower ''create a meeting with akash at 3pm saturday'')
         (enumerate 0 day_names) (new_year + days 2 + hours 15)
       = Inr (new_year + days 3 + hours 15)
   \<and> weekday (new_year + days 3 + hours 15) = 5
   \<and> date_of (new_year + days 3 + hours 15) - date_of (new_year + days 2 + hours 15) = 1
   \<and> hour_of (new_year + days 3 + hours 15) = hour_of (new_year + days 2 + hours 15)
   \<and> minute_of (new_year + days 3 + hours 15) = minute_of (new_year + days 2 + hours 15)
   \<and> second_of (new_year + days 3 + hours 15) = 0
   \<and> (6::nat) < 7
   \<and> contains_str (day_names ! 6) (lower ''create a meeting with akash at 3pm sunday'')
   \<and> weekday (max_wall - days 1 + hours 15) = 4
   \<and> max_wall - days 1 + hours 15 < max_wall
   \<and> \<not> max_wall - days 1 + hours 15 + days 2 < max_wall
   \<and> adjust_weekday (lower ''create a meeting with akash at 3pm sunday'')
         (enumerate 0 day_names) (max_wall - days 1 + hours 15)
       = Inl (OverflowError, ''date value out of range'')"
proof -
  let ?q = "''create a meeting with akash at 3pm saturday''"
  let ?start = "new_year + days 2 + hours 15"
  have 1: "(5::nat) < 7" by simp
  have 2: "contains_str (day_names ! 5) (lower ?q)" by code_simp
  have 3: "\<forall>j < 7. j \<noteq> 5 \<longrightarrow> \<not> contains_str (day_names ! j) (lower ?q)"
    using friday_query_days by simp
  have w: "weekday ?start = 4" by code_simp
  then have 4: "weekday ?start \<noteq> 5" by simp
  have 5: "0 \<le> ?start" by code_simp
  have 6: "?start < max_wall" by code_simp
  have 7: "?start + days 1 < max_wall" by code_simp
  have da: "(int 5 - int (weekday ?start) + 7) mod 7 = 1" unfolding w by simp
  from weekday_correction_single_day [OF 1 2 3 4 5 6] 7 obtain adjusted where
    a: "adjust_weekday (lower ?q) (enumerate 0 day_names) ?start = Inr adjusted"
    and p: "weekday adjusted = 5" "date_of adjusted - date_of ?start = 1"
      "hour_of adjusted = hour_of ?start"
      "minute_of adjusted = minute_of ?start" "second_of adjusted = 0"
    unfolding da by auto
  from a friday_adjust have e: "adjusted = new_year + days 3 + hours 15" by simp
  have n: "\<not> contains_str (day_names ! 4) (lower ?q)" by code_simp
  let ?q' = "''create a meeting with akash at 3pm sunday''"
  let ?last = "max_wall - days 1 + hours 15"
  have s1: "(6::nat) < 7" by simp
  have s2: "contains_str (day_names ! 6) (lower ?q')" by code_simp
  have s3: "\<forall>j < 7. j \<noteq> 6 \<longrightarrow> \<not> contains_str (day_names ! j) (lower ?q')"
    using sunday_query_days by simp
  have w': "weekday ?last = 4" by code_simp
  then have s4: "weekday ?last \<noteq> 6" by simp
  have s5: "0 \<le> ?last" by code_simp
  have s6: "?last < max_wall" by code_simp
  have s7: "\<not> ?last + days 2 < max_wall" by code_simp
  have da': "(int 6 - int (weekday ?last) + 7) mod 7 = 2" unfolding w' by simp
  from weekday_correction_single_day [OF s1 s2 s3 s4 s5 s6] s7
  have o: "adjust_weekday (lower ?q') (enumerate 0 day_names) ?last
       = Inl (OverflowError, ''date value out of range'')"
    unfolding da' by simp
  from p [unfolded e] 1 2 n w 5 6 7 friday_adjust s1 s2 w' s6 s7 o show ?thesis by blast
qed

end

